theory Spec2Isabelle
  imports Main "HOL-Library.Word" "HOL-Library.Monad_Syntax"
begin

section \<open>Data model of the VFS core (kernel/fs/vfs.c)\<close>

text \<open>
  The kernel targets x86-64: \<open>size_t\<close> and \<open>int64_t\<close> are 64-bit words. Addition and
  subtraction on them wrap around; a cast between the two keeps the bits, and a signed
  comparison reads the word with \<open>sint\<close>.
\<close>

type_synonym size_t = "64 word"
type_synonym int64_t = "64 word"
type_synonym vfs_handle_t = "64 word"

text \<open>Pointers are addresses into the stores below.\<close>

type_synonym inode_ptr = nat
type_synonym tnode_ptr = nat
type_synonym fs_ptr = nat
type_synonym buf_ptr = nat

datatype vfs_node_type_t =
    VFS_NODE_FILE
  | VFS_NODE_SYMLINK
  | VFS_NODE_FOLDER
  | VFS_NODE_BLOCK_DEVICE
  | VFS_NODE_CHAR_DEVICE
  | VFS_NODE_MOUNTPOINT
  | VFS_NODE_PIPE

datatype vfs_openmode_t =
    VFS_MODE_READ
  | VFS_MODE_WRITE
  | VFS_MODE_READWRITE
  | VFS_MODE_APPEND

text \<open>
  The stat record of a tnode. Only the fields that the functions below read or write are
  kept; the timestamps are touched by \<open>vfs_create\<close> alone. The structures are declared in
  fs/vfs.h, which is not among the sources: the link count and the reference count are
  unsigned counters, and nothing below depends on the widths chosen for them.
\<close>

record vfs_stat_t =
  st_dev :: "64 word"
  st_ino :: "64 word"
  st_mode :: "32 word"
  st_nlink :: "64 word"
  st_size :: "64 word"

record vfs_tnode_t =
  tn_name :: string
  tn_inode :: inode_ptr
  tn_st :: vfs_stat_t
  tn_parent :: "tnode_ptr option"

record vfs_inode_t =
  i_type :: vfs_node_type_t
  i_size :: size_t
  i_perms :: "32 word"
  i_refcount :: "32 word"
  i_fs :: "fs_ptr option"
  i_mountpoint :: "tnode_ptr option"
  i_child :: "tnode_ptr list"

record vfs_node_desc_t =
  nd_tnode :: tnode_ptr
  nd_inode :: inode_ptr
  nd_mode :: vfs_openmode_t
  nd_seek_pos :: size_t
  nd_path :: string

text \<open>
  The memory a provider can reach through the inode and tnode pointers it is given: the
  two stores of the tree, and everything private to the back-ends (their data blocks and
  the caller's buffers), of an arbitrary type \<open>'b\<close>. An address outside the domain of a
  store is a null, dangling or freed pointer.
\<close>

record 'b vfs_heap =
  inodes :: "inode_ptr \<rightharpoonup> vfs_inode_t"
  tnodes :: "tnode_ptr \<rightharpoonup> vfs_tnode_t"
  backend :: 'b

text \<open>
  The globals of vfs.c: the tree, the table of open files \<open>vfs_openfiles\<close> (a hash table
  from handles to descriptors; a descriptor is allocated per open and never shared, so the
  table holds the descriptor itself), the handle counter \<open>vfs_next_handle\<close>, the list of
  registered filesystems \<open>vfs_fslist\<close> and the reserved TTY handle \<open>ttyfh\<close>.
\<close>

record 'b vfs_state =
  heap :: "'b vfs_heap"
  vfs_openfiles :: "vfs_handle_t \<rightharpoonup> vfs_node_desc_t"
  vfs_next_handle :: size_t
  vfs_fslist :: "fs_ptr list"
  ttyfh :: vfs_handle_t

text \<open>
  A filesystem provider \<open>vfs_fsinfo_t\<close>: its name, the \<open>istemp\<close> flag and its operations.
  An operation is a function of the heap that returns its result and the heap it leaves;
  the operations that vfs.c tests against \<open>NULL\<close> before the call are optional.
\<close>

record 'b vfs_fsinfo_t =
  fs_name :: string
  istemp :: bool
  fs_mount :: "inode_ptr option \<Rightarrow> 'b vfs_heap \<Rightarrow> inode_ptr \<times> 'b vfs_heap"
  fs_open :: "inode_ptr \<Rightarrow> string \<Rightarrow> 'b vfs_heap \<Rightarrow> tnode_ptr option \<times> 'b vfs_heap"
  fs_read :: "inode_ptr \<Rightarrow> size_t \<Rightarrow> size_t \<Rightarrow> buf_ptr \<Rightarrow> 'b vfs_heap \<Rightarrow> int64_t \<times> 'b vfs_heap"
  fs_write :: "inode_ptr \<Rightarrow> size_t \<Rightarrow> size_t \<Rightarrow> buf_ptr \<Rightarrow> 'b vfs_heap \<Rightarrow> int64_t \<times> 'b vfs_heap"
  fs_sync :: "(inode_ptr \<Rightarrow> 'b vfs_heap \<Rightarrow> 'b vfs_heap) option"
  fs_rmnode :: "(tnode_ptr \<Rightarrow> 'b vfs_heap \<Rightarrow> 'b vfs_heap) option"

text \<open>
  What vfs.c takes from files that are not part of these sources: the provider records
  (static objects, addressed by \<open>fs_ptr\<close>), the path resolver \<open>vfs_path_to_node\<close> in its
  \<open>NO_CREATE\<close> mode (it reads the tree and returns a tnode or \<open>NULL\<close>), the constants
  \<open>VFS_MIN_HANDLE\<close> and \<open>VFS_INVALID_HANDLE\<close>, and the size of the provider's name field.
\<close>

record 'b vfs_env =
  fsinfo :: "fs_ptr \<Rightarrow> 'b vfs_fsinfo_t"
  vfs_path_to_node :: "'b vfs_heap \<Rightarrow> string \<Rightarrow> tnode_ptr option"
  VFS_MIN_HANDLE :: size_t
  VFS_INVALID_HANDLE :: vfs_handle_t
  FS_NAME_SIZE :: nat

definition SEEK_SET :: int64_t where
  "SEEK_SET = 3"

definition SEEK_CUR :: int64_t where
  "SEEK_CUR = 1"

definition SEEK_END :: int64_t where
  "SEEK_END = 2"

section \<open>Strings (libc/string.h)\<close>

text \<open>
  A buffer is the list of its bytes, and a C string is what a buffer holds before the
  first terminator (\<open>c_str\<close>); a string that is passed around is the list of its bytes
  without the terminator. \<open>strcpy\<close> writes the source and its terminator over the start
  of the destination; \<open>strcmp\<close> and \<open>strncmp\<close> compare byte by byte up to a terminator,
  the end of a list reading as one. Buffers are taken to be large enough for the strings
  copied into them. The functions of libc/string.h are not among the sources; they are as
  the C standard defines them.
\<close>

definition NUL :: char where
  "NUL = CHR 0x00"

definition c_str :: "string \<Rightarrow> string" where
  "c_str buf = takeWhile (\<lambda>c. c \<noteq> NUL) buf"

definition strlen :: "string \<Rightarrow> int" where
  "strlen buf = int (length (c_str buf))"

definition strcpy :: "string \<Rightarrow> string \<Rightarrow> string" where
  "strcpy dst src = c_str src @ [NUL] @ drop (length (c_str src) + 1) dst"

fun strncmp :: "string \<Rightarrow> string \<Rightarrow> nat \<Rightarrow> int" where
  "strncmp a b 0 = 0"
| "strncmp [] [] (Suc n) = 0"
| "strncmp [] (y # ys) (Suc n) = - int (of_char y)"
| "strncmp (x # xs) [] (Suc n) = int (of_char x)"
| "strncmp (x # xs) (y # ys) (Suc n) =
     (if x \<noteq> y then int (of_char x) - int (of_char y)
      else if x = NUL then 0
      else strncmp xs ys n)"

fun strcmp :: "string \<Rightarrow> string \<Rightarrow> int" where
  "strcmp [] [] = 0"
| "strcmp [] (y # ys) = - int (of_char y)"
| "strcmp (x # xs) [] = int (of_char x)"
| "strcmp (x # xs) (y # ys) =
     (if x \<noteq> y then int (of_char x) - int (of_char y)
      else if x = NUL then 0
      else strcmp xs ys)"

section \<open>Handle table\<close>

text \<open>
  Modelled from the spec: the hash table of base/hash.h is not in the sources; it is a
  mapping from handle to descriptor with insert, lookup (\<open>NULL\<close> when absent) and delete.
\<close>

definition vfs_handle_to_fd :: "'b vfs_state \<Rightarrow> vfs_handle_t \<Rightarrow> vfs_node_desc_t option" where
  "vfs_handle_to_fd s handle = vfs_openfiles s handle"

definition ht_insert :: "'b vfs_state \<Rightarrow> vfs_handle_t \<Rightarrow> vfs_node_desc_t \<Rightarrow> 'b vfs_state" where
  "ht_insert s handle nd = s\<lparr>vfs_openfiles := (vfs_openfiles s)(handle \<mapsto> nd)\<rparr>"

definition ht_delete :: "'b vfs_state \<Rightarrow> vfs_handle_t \<Rightarrow> 'b vfs_state" where
  "ht_delete s handle = s\<lparr>vfs_openfiles := (vfs_openfiles s)(handle := None)\<rparr>"

text \<open>A write to a field of the descriptor that \<open>handle\<close> maps to.\<close>

definition set_fd :: "'b vfs_state \<Rightarrow> vfs_handle_t \<Rightarrow> vfs_node_desc_t \<Rightarrow> 'b vfs_state" where
  "set_fd s handle fd = s\<lparr>vfs_openfiles := (vfs_openfiles s)(handle \<mapsto> fd)\<rparr>"

section \<open>Operations\<close>

text \<open>
  Every operation returns \<open>None\<close> when it dereferences a pointer that is not in the
  store (undefined behaviour in C), and otherwise its return value with the new state.
  The global lock and the log calls have no effect on the state and are left out.
\<close>

subsection \<open>vfs_seek\<close>

definition vfs_seek ::
  "'b vfs_state \<Rightarrow> vfs_handle_t \<Rightarrow> size_t \<Rightarrow> int64_t \<Rightarrow> (int64_t \<times> 'b vfs_state) option" where
  "vfs_seek s handle pos whence =
    (case vfs_handle_to_fd s handle of
       None \<Rightarrow> Some (- 1, s)
     | Some fd \<Rightarrow>
         do {
           inode \<leftarrow> inodes (heap s) (nd_inode fd);
           let offset =
             (if whence = SEEK_SET then pos
              else if whence = SEEK_CUR then nd_seek_pos fd + pos
              else if whence = SEEK_END then i_size inode - pos
              else - 1);
           if sint offset > sint (i_size inode) \<or> sint offset < 0 then Some (- 1, s)
           else if sint offset \<ge> 0 \<and> sint offset \<le> sint (i_size inode)
             then Some (offset, set_fd s handle (fd\<lparr>nd_seek_pos := offset\<rparr>))
             else Some (- 1, s)
         })"

subsection \<open>vfs_read\<close>

definition vfs_read ::
  "'b vfs_env \<Rightarrow> 'b vfs_state \<Rightarrow> vfs_handle_t \<Rightarrow> size_t \<Rightarrow> buf_ptr \<Rightarrow>
    (int64_t \<times> 'b vfs_state) option" where
  "vfs_read env s handle len buff =
    (case vfs_handle_to_fd s handle of
       None \<Rightarrow> Some (0, s)
     | Some fd \<Rightarrow>
         do {
           inode \<leftarrow> inodes (heap s) (nd_inode fd);
           let truncate = (nd_seek_pos fd + len > i_size inode \<and> handle \<noteq> ttyfh s);
           let len1 = (if truncate then i_size inode - nd_seek_pos fd else len);
           if truncate \<and> len1 = 0 then Some (len1, s)
           else do {
             fsp \<leftarrow> i_fs inode;
             let (status, h1) =
               fs_read (fsinfo env fsp) (nd_inode fd) (nd_seek_pos fd) len1 buff (heap s);
             let len2 = (if status = - 1 then 0 else len1);
             Some (len2, set_fd (s\<lparr>heap := h1\<rparr>) handle
                           (fd\<lparr>nd_seek_pos := nd_seek_pos fd + len2\<rparr>))
           }
         })"

subsection \<open>vfs_write\<close>

definition set_inode :: "'b vfs_heap \<Rightarrow> inode_ptr \<Rightarrow> vfs_inode_t \<Rightarrow> 'b vfs_heap" where
  "set_inode h p v = h\<lparr>inodes := (inodes h)(p \<mapsto> v)\<rparr>"

definition set_tnode :: "'b vfs_heap \<Rightarrow> tnode_ptr \<Rightarrow> vfs_tnode_t \<Rightarrow> 'b vfs_heap" where
  "set_tnode h p v = h\<lparr>tnodes := (tnodes h)(p \<mapsto> v)\<rparr>"

text \<open>
  The first half of \<open>vfs_write\<close>: the file is expanded, and the provider's \<open>sync\<close> is
  called when it has one, if the write ends past the current size.
\<close>

definition vfs_write_expand ::
  "'b vfs_env \<Rightarrow> 'b vfs_heap \<Rightarrow> vfs_node_desc_t \<Rightarrow> size_t \<Rightarrow> 'b vfs_heap option" where
  "vfs_write_expand env h nd len =
    do {
      inode \<leftarrow> inodes h (nd_inode nd);
      if nd_seek_pos nd + len > i_size inode then
        do {
          let h1 = set_inode h (nd_inode nd) (inode\<lparr>i_size := nd_seek_pos nd + len\<rparr>);
          fsp \<leftarrow> i_fs inode;
          Some (case fs_sync (fsinfo env fsp) of
                  None \<Rightarrow> h1
                | Some sync \<Rightarrow> sync (nd_inode nd) h1)
        }
      else Some h
    }"

definition vfs_write ::
  "'b vfs_env \<Rightarrow> 'b vfs_state \<Rightarrow> vfs_handle_t \<Rightarrow> size_t \<Rightarrow> buf_ptr \<Rightarrow>
    (int64_t \<times> 'b vfs_state) option" where
  "vfs_write env s handle len buff =
    (case vfs_handle_to_fd s handle of
       None \<Rightarrow> Some (0, s)
     | Some nd \<Rightarrow>
         if nd_mode nd = VFS_MODE_READ then Some (0, s)
         else do {
           h2 \<leftarrow> vfs_write_expand env (heap s) nd len;
           inode2 \<leftarrow> inodes h2 (nd_inode nd);
           fsp \<leftarrow> i_fs inode2;
           let (status, h3) =
             fs_write (fsinfo env fsp) (nd_inode nd) (nd_seek_pos nd) len buff h2;
           let len1 = (if status = - 1 then 0 else len);
           tnode3 \<leftarrow> tnodes h3 (nd_tnode nd);
           inode3 \<leftarrow> inodes h3 (nd_inode nd);
           let h4 = set_tnode h3 (nd_tnode nd)
                      (tnode3\<lparr>tn_st := (tn_st tnode3)\<lparr>st_size := i_size inode3\<rparr>\<rparr>);
           Some (len1, s\<lparr>heap := h4\<rparr>)
         })"

subsection \<open>vfs_unlink\<close>

definition vfs_unlink ::
  "'b vfs_env \<Rightarrow> 'b vfs_state \<Rightarrow> string \<Rightarrow> (int64_t \<times> 'b vfs_state) option" where
  "vfs_unlink env s path =
    (case vfs_path_to_node env (heap s) path of
       None \<Rightarrow> Some (- 1, s)
     | Some req \<Rightarrow>
         do {
           tnode \<leftarrow> tnodes (heap s) req;
           if st_nlink (tn_st tnode) > 1 then Some (- 1, s)
           else if st_nlink (tn_st tnode) = 0 then Some (- 1, s)
           else do {
             let h1 = set_tnode (heap s) req (tnode\<lparr>tn_st := (tn_st tnode)\<lparr>st_nlink := 0\<rparr>\<rparr>);
             inode \<leftarrow> inodes h1 (tn_inode tnode);
             if i_refcount inode = 0 then
               do {
                 fsp \<leftarrow> i_fs inode;
                 case fs_rmnode (fsinfo env fsp) of
                   None \<Rightarrow> Some (0, s\<lparr>heap := h1\<rparr>)
                 | Some rmnode \<Rightarrow> Some (0, s\<lparr>heap := rmnode req h1\<rparr>)
               }
             else Some (0, s\<lparr>heap := h1\<rparr>)
           }
         })"

subsection \<open>vfs_get_fs and vfs_mount\<close>

primrec vfs_get_fs_from :: "'b vfs_env \<Rightarrow> fs_ptr list \<Rightarrow> string \<Rightarrow> fs_ptr option" where
  "vfs_get_fs_from env [] name = None"
| "vfs_get_fs_from env (f # fs) name =
     (if strncmp name (fs_name (fsinfo env f)) (FS_NAME_SIZE env) = 0 then Some f
      else vfs_get_fs_from env fs name)"

definition vfs_get_fs :: "'b vfs_env \<Rightarrow> 'b vfs_state \<Rightarrow> string \<Rightarrow> fs_ptr option" where
  "vfs_get_fs env s name = vfs_get_fs_from env (vfs_fslist s) name"

text \<open>
  The second half of \<open>vfs_mount\<close>, from the lookup of the mount point on: \<open>dev\<close> is the
  tnode of the block device, or \<open>NULL\<close> for a temporary filesystem. \<open>kmfree\<close> takes the
  placeholder inode out of the store.
\<close>

definition kmfree_inode :: "'b vfs_heap \<Rightarrow> inode_ptr \<Rightarrow> 'b vfs_heap" where
  "kmfree_inode h p = h\<lparr>inodes := (inodes h)(p := None)\<rparr>"

definition vfs_mount_at ::
  "'b vfs_env \<Rightarrow> 'b vfs_state \<Rightarrow> fs_ptr \<Rightarrow> tnode_ptr option \<Rightarrow> string \<Rightarrow>
    (int64_t \<times> 'b vfs_state) option" where
  "vfs_mount_at env s fsp dev path =
    (case vfs_path_to_node env (heap s) path of
       None \<Rightarrow> Some (- 1, s)
     | Some at \<Rightarrow>
         do {
           at_tnode \<leftarrow> tnodes (heap s) at;
           at_inode \<leftarrow> inodes (heap s) (tn_inode at_tnode);
           if i_type at_inode \<noteq> VFS_NODE_FOLDER \<or> length (i_child at_inode) \<noteq> 0
           then Some (- 1, s)
           else do {
             let h1 = kmfree_inode (heap s) (tn_inode at_tnode);
             dev_inode \<leftarrow> (case dev of
                              None \<Rightarrow> Some None
                            | Some d \<Rightarrow> map_option (\<lambda>t. Some (tn_inode t)) (tnodes h1 d));
             let (root, h2) = fs_mount (fsinfo env fsp) dev_inode h1;
             at_tnode2 \<leftarrow> tnodes h2 at;
             let h3 = set_tnode h2 at (at_tnode2\<lparr>tn_inode := root\<rparr>);
             root_inode \<leftarrow> inodes h3 root;
             let h4 = set_inode h3 root (root_inode\<lparr>i_mountpoint := Some at\<rparr>);
             Some (0, s\<lparr>heap := h4\<rparr>)
           }
         })"

text \<open>
  \<open>device\<close> may be \<open>NULL\<close> (as in \<open>vfs_init\<close>, for the temporary filesystem); the
  resolver reads its path, so a \<open>NULL\<close> device with a provider that needs one is a null
  dereference.
\<close>

definition vfs_mount ::
  "'b vfs_env \<Rightarrow> 'b vfs_state \<Rightarrow> string option \<Rightarrow> string \<Rightarrow> string \<Rightarrow>
    (int64_t \<times> 'b vfs_state) option" where
  "vfs_mount env s device path fsname =
    (case vfs_get_fs env s fsname of
       None \<Rightarrow> Some (- 1, s)
     | Some fsp \<Rightarrow>
         if \<not> istemp (fsinfo env fsp) then
           (case device of
              None \<Rightarrow> None
            | Some d \<Rightarrow>
                (case vfs_path_to_node env (heap s) d of
                   None \<Rightarrow> Some (- 1, s)
                 | Some dev \<Rightarrow>
                     do {
                       dev_tnode \<leftarrow> tnodes (heap s) dev;
                       dev_inode \<leftarrow> inodes (heap s) (tn_inode dev_tnode);
                       if i_type dev_inode \<noteq> VFS_NODE_BLOCK_DEVICE then Some (- 1, s)
                       else vfs_mount_at env s fsp (Some dev) path
                     }))
         else vfs_mount_at env s fsp None path)"

subsection \<open>vfs_get_parent_dir\<close>

text \<open>
  The routine works in the caller's buffer \<open>parent\<close>, where it overwrites slashes with the
  terminator. The index \<open>idx\<close> is an \<open>int64_t\<close> that starts at \<open>strlen(parent) - 1\<close>, that
  is at \<open>- 1\<close> for the empty string, and only decreases: it is an integer here.
\<close>

text \<open>
  The first loop removes the trailing slashes. When \<open>idx\<close> has reached \<open>- 1\<close> the test
  \<open>parent[idx] != '/'\<close> reads the byte before the buffer; whatever it holds, the loop is
  left with the same buffer and index, through \<open>break\<close> or through the loop condition.
\<close>

function strip_slashes :: "string \<Rightarrow> int \<Rightarrow> string \<times> int" where
  "strip_slashes parent idx =
    (if idx \<ge> 0 then
       (if parent ! nat idx = CHR ''/'' then
          (let parent1 = parent[nat idx := NUL]; idx1 = idx - 1 in
           if idx1 < 0 then (parent1, idx1)
           else if parent1 ! nat idx1 \<noteq> CHR ''/'' then (parent1, idx1)
           else strip_slashes parent1 idx1)
        else (parent, idx))
     else (parent, idx))"
  by pat_completeness auto
termination
  by (relation "measure (\<lambda>(parent, idx). nat (idx + 1))") auto

declare strip_slashes.simps [simp del]

text \<open>The second loop cuts the buffer at the last slash that is left.\<close>

function cut_last_slash :: "string \<Rightarrow> int \<Rightarrow> string \<times> int" where
  "cut_last_slash parent idx =
    (if idx \<ge> 0 then
       (if parent ! nat idx = CHR ''/'' then (parent[nat idx := NUL], idx)
        else cut_last_slash parent (idx - 1))
     else (parent, idx))"
  by pat_completeness auto
termination
  by (relation "measure (\<lambda>(parent, idx). nat (idx + 1))") auto

declare cut_last_slash.simps [simp del]

text \<open>
  Arguments: the path, and the old contents of the buffers \<open>parent\<close> and \<open>currdir\<close>
  (\<open>None\<close> for a \<open>NULL\<close> pointer). Result: the return value and the strings the two
  buffers hold afterwards.
\<close>

definition vfs_get_parent_dir ::
  "string option \<Rightarrow> string option \<Rightarrow> string option \<Rightarrow> int64_t \<times> string option \<times> string option" where
  "vfs_get_parent_dir path parent currdir =
    (case (path, parent) of
       (Some path_str, Some parent_old) \<Rightarrow>
         (let parent0 = strcpy parent_old path_str;
              (parent1, idx1) = strip_slashes parent0 (strlen parent0 - 1)
          in if idx1 \<le> 0 then (- 1, Some (c_str (parent1[0 := NUL])), currdir)
             else
               (let (parent2, idx2) = cut_last_slash parent1 idx1;
                    currdir1 = (if currdir \<noteq> None \<and> idx2 \<ge> 0
                                then Some (c_str (drop (nat (idx2 + 1)) parent2))
                                else currdir);
                    parent3 = (if strlen parent2 = 0 then strcpy parent2 ''/'' else parent2)
                in (0, Some (c_str parent3), currdir1)))
     | _ \<Rightarrow> (- 1, parent, currdir))"

text \<open>
  What the two loops compute, in terms of the path: \<open>strip_trailing\<close> removes the
  trailing slashes, \<open>dirname\<close> is what stands before the last slash and \<open>basename\<close>
  what stands after it.
\<close>

definition strip_trailing :: "string \<Rightarrow> string" where
  "strip_trailing q = rev (dropWhile (\<lambda>c. c = CHR ''/'') (rev q))"

definition basename :: "string \<Rightarrow> string" where
  "basename r = rev (takeWhile (\<lambda>c. c \<noteq> CHR ''/'') (rev r))"

definition dirname :: "string \<Rightarrow> string" where
  "dirname r = rev (tl (dropWhile (\<lambda>c. c \<noteq> CHR ''/'') (rev r)))"


text \<open>
  In \<open>vfs_open\<close> the buffers \<open>curpath\<close> and \<open>parent\<close> are local arrays and \<open>currdir\<close> is
  \<open>NULL\<close>: \<open>parent_of\<close> is the string that \<open>vfs_get_parent_dir\<close> leaves in \<open>parent\<close>.
\<close>

definition parent_of :: "string \<Rightarrow> string" where
  "parent_of curpath =
    (case fst (snd (vfs_get_parent_dir (Some curpath) (Some []) None)) of
       None \<Rightarrow> []
     | Some p \<Rightarrow> p)"

subsection \<open>The closed form of vfs_get_parent_dir\<close>

lemma strip_trailing_snoc:
  "strip_trailing (ys @ [x]) = (if x = CHR ''/'' then strip_trailing ys else ys @ [x])"
  by (simp add: strip_trailing_def)

lemma strip_trailing_Nil [simp]: "strip_trailing [] = []"
  by (simp add: strip_trailing_def)

lemma strip_trailing_last:
  "ys \<noteq> [] \<Longrightarrow> last ys \<noteq> CHR ''/'' \<Longrightarrow> strip_trailing ys = ys"
  by (cases ys rule: rev_cases) (simp_all add: strip_trailing_snoc)

lemma length_strip_trailing: "length (strip_trailing q) \<le> length q"
  by (simp add: strip_trailing_def) (metis length_dropWhile_le length_rev)

lemma NUL_neq_slash: "NUL \<noteq> CHR ''/''" "CHR ''/'' \<noteq> NUL"
  by (simp_all add: NUL_def)

lemma strip_slashes_append:
  "strip_slashes (xs @ zs) (int (length xs) - 1) =
     (strip_trailing xs @ replicate (length xs - length (strip_trailing xs)) NUL @ zs,
      int (length (strip_trailing xs)) - 1)"
proof (induction xs arbitrary: zs rule: rev_induct)
  case Nil
  show ?case by (subst strip_slashes.simps) simp
next
  case (snoc x ys)
  show ?case
  proof (cases "x = CHR ''/''")
    case False
    then show ?thesis
      by (subst strip_slashes.simps) (simp add: strip_trailing_snoc nth_append)
  next
    case True
    note x = this
    show ?thesis
    proof (cases "ys = []")
      case True
      then show ?thesis using x by (subst strip_slashes.simps) (simp add: strip_trailing_def)
    next
      case False
      then have len: "0 < length ys" by simp
      have upd: "(ys @ [x] @ zs)[length ys := NUL] = ys @ NUL # zs"
        by (simp add: list_update_append)
      have nth1: "(ys @ NUL # zs) ! (length ys - 1) = last ys"
        using False by (simp add: nth_append last_conv_nth)
      have ix: "nat (int (length ys) - 1) < length ys"
        using len by linarith
      have nth0: "length ys < 2 \<Longrightarrow> ys ! 0 = last ys"
        using False by (cases ys) auto
      show ?thesis
      proof (cases "last ys = CHR ''/''")
        case False
        then have st: "strip_trailing ys = ys" using \<open>ys \<noteq> []\<close> by (simp add: strip_trailing_last)
        have "strip_slashes (ys @ [x] @ zs) (int (length ys)) = (ys @ NUL # zs, int (length ys) - 1)"
          using x False len nth1 nth0 upd ix
          by (subst strip_slashes.simps) (simp add: nth_append Let_def nat_diff_distrib NUL_neq_slash)
        then show ?thesis using x st by (simp add: strip_trailing_snoc)
      next
        case True
        have step: "strip_slashes (ys @ [x] @ zs) (int (length ys)) =
                strip_slashes (ys @ NUL # zs) (int (length ys) - 1)"
          using x True len nth1 nth0 upd ix
          by (subst strip_slashes.simps) (simp add: nth_append Let_def nat_diff_distrib NUL_neq_slash)
        have le: "length (strip_trailing ys) \<le> length ys" by (rule length_strip_trailing)
        have rep: "replicate (length ys - length (strip_trailing ys)) NUL @ NUL # zs
            = replicate (Suc (length ys) - length (strip_trailing ys)) NUL @ zs"
          using le by (simp add: Suc_diff_le replicate_app_Cons_same)
        show ?thesis
          using step snoc.IH[of "NUL # zs"] x rep by (simp add: strip_trailing_snoc)
      qed
    qed
  qed
qed


lemma basename_snoc:
  "basename (ys @ [x]) = (if x = CHR ''/'' then [] else basename ys @ [x])"
  by (simp add: basename_def)

lemma dirname_snoc:
  "dirname (ys @ [x]) = (if x = CHR ''/'' then ys else dirname ys)"
  by (simp add: dirname_def)

lemma cut_last_slash_append:
  "cut_last_slash (r @ zs) (int (length r) - 1) =
     (if CHR ''/'' \<in> set r
      then (dirname r @ NUL # basename r @ zs, int (length (dirname r)))
      else (r @ zs, - 1))"
proof (induction r arbitrary: zs rule: rev_induct)
  case Nil
  show ?case by (subst cut_last_slash.simps) simp
next
  case (snoc x ys)
  show ?case
  proof (cases "x = CHR ''/''")
    case True
    then show ?thesis
      by (subst cut_last_slash.simps)
         (simp add: nth_append basename_snoc dirname_snoc list_update_append)
  next
    case False
    have "cut_last_slash (ys @ [x] @ zs) (int (length ys)) =
            cut_last_slash (ys @ (x # zs)) (int (length ys) - 1)"
      using False by (subst cut_last_slash.simps) (simp add: nth_append)
    then show ?thesis
      using snoc.IH[of "x # zs"] False by (simp add: basename_snoc dirname_snoc)
  qed
qed

lemma c_str_append_NUL:
  "NUL \<notin> set r \<Longrightarrow> c_str (r @ NUL # zs) = r"
  unfolding c_str_def
  by (induction r) auto

lemma c_str_append_replicate:
  "NUL \<notin> set r \<Longrightarrow> c_str (r @ replicate k NUL @ NUL # zs) = r"
  by (cases k) (simp_all add: c_str_append_NUL)

lemma NUL_notin_c_str: "NUL \<notin> set (c_str p)"
  by (auto simp add: c_str_def dest: set_takeWhileD)

lemma set_strip_trailing: "set (strip_trailing q) \<subseteq> set q"
  by (auto simp add: strip_trailing_def dest: set_dropWhileD)

lemma set_basename: "set (basename q) \<subseteq> set q"
  by (auto simp add: basename_def dest: set_takeWhileD)

lemma set_dirname: "set (dirname q) \<subseteq> set q"
proof
  fix c assume "c \<in> set (dirname q)"
  then have "c \<in> set (tl (dropWhile (\<lambda>c. c \<noteq> CHR ''/'') (rev q)))"
    by (simp add: dirname_def)
  then have "c \<in> set (dropWhile (\<lambda>c. c \<noteq> CHR ''/'') (rev q))"
    by (cases "dropWhile (\<lambda>c. c \<noteq> CHR ''/'') (rev q)") simp_all
  then have "c \<in> set (rev q)"
    by (rule set_dropWhileD)
  then show "c \<in> set q" by simp
qed

lemma c_str_slash: "c_str (CHR ''/'' # NUL # zs) = ''/''" "c_str ''/'' = ''/''"
  by (simp_all add: c_str_def NUL_def)

lemma vfs_get_parent_dir_char:
  "vfs_get_parent_dir (Some p) (Some old) cd =
    (let r = strip_trailing (c_str p) in
     if length r \<le> 1 then (- 1, Some [], cd)
     else if CHR ''/'' \<notin> set r then (0, Some r, cd)
     else (0, Some (if dirname r = [] then ''/'' else dirname r),
           if cd = None then None else Some (basename r)))"
proof -
  define q where "q = c_str p"
  define r where "r = strip_trailing q"
  define zs where "zs = NUL # drop (length q + 1) old"
  define k where "k = length q - length r"
  define zs1 where "zs1 = replicate k NUL @ zs"
  have nq: "NUL \<notin> set q" unfolding q_def by (rule NUL_notin_c_str)
  have nr: "NUL \<notin> set r" using nq set_strip_trailing[of q] unfolding r_def by auto
  have nb: "NUL \<notin> set (basename r)" using nr set_basename[of r] by auto
  have nd: "NUL \<notin> set (dirname r)" using nr set_dirname[of r] by auto
  have p0: "strcpy old p = q @ zs" by (simp add: strcpy_def q_def zs_def)
  have len0: "strlen (q @ zs) = int (length q)"
    using nq by (simp add: strlen_def zs_def c_str_append_NUL)
  have strip: "strip_slashes (q @ zs) (int (length q) - 1) = (r @ zs1, int (length r) - 1)"
    unfolding r_def zs1_def k_def by (rule strip_slashes_append)
  have c1: "c_str (r @ zs1) = r"
    using nr unfolding zs1_def zs_def by (rule c_str_append_replicate)
  have zs1_ne: "zs1 \<noteq> []" by (simp add: zs1_def zs_def)
  show ?thesis
  proof (cases "length r \<le> 1")
    case True
    have "c_str ((r @ zs1)[0 := NUL]) = []"
      using zs1_ne by (cases r; cases zs1) (simp_all add: c_str_def)
    then show ?thesis
      using True p0 len0 strip
      by (simp add: vfs_get_parent_dir_def Let_def q_def[symmetric] r_def[symmetric])
  next
    case False
    then have big: "\<not> int (length r) - 1 \<le> 0" by simp
    show ?thesis
    proof (cases "CHR ''/'' \<in> set r")
      case False
      have cut: "cut_last_slash (r @ zs1) (int (length r) - 1) = (r @ zs1, - 1)"
        using False by (simp add: cut_last_slash_append)
      have sl: "strlen (r @ zs1) \<noteq> 0" using c1 \<open>\<not> length r \<le> 1\<close> by (auto simp add: strlen_def)
      show ?thesis
        using False big \<open>\<not> length r \<le> 1\<close> p0 len0 strip cut sl c1
        by (simp add: vfs_get_parent_dir_def Let_def q_def[symmetric] r_def[symmetric])
    next
      case True
      have cut: "cut_last_slash (r @ zs1) (int (length r) - 1) =
                   (dirname r @ NUL # basename r @ zs1, int (length (dirname r)))"
        using True by (simp add: cut_last_slash_append)
      have c2: "c_str (dirname r @ NUL # basename r @ zs1) = dirname r"
        using nd by (rule c_str_append_NUL)
      have dr: "drop (nat (int (length (dirname r)) + 1)) (dirname r @ NUL # basename r @ zs1)
                  = basename r @ zs1"
        by (simp add: nat_add_distrib)
      have c3: "c_str (basename r @ zs1) = basename r"
        using nb unfolding zs1_def zs_def by (rule c_str_append_replicate)
      have sl: "strlen (dirname r @ NUL # basename r @ zs1) = int (length (dirname r))"
        using c2 by (simp add: strlen_def)
      have c4: "dirname r = [] \<Longrightarrow>
          c_str (strcpy (dirname r @ NUL # basename r @ zs1) ''/'') = ''/''"
        by (simp add: strcpy_def c_str_slash)
      show ?thesis
        using True big \<open>\<not> length r \<le> 1\<close> p0 len0 strip cut sl c2 c3 c4 dr
        by (auto simp add: vfs_get_parent_dir_def Let_def q_def[symmetric] r_def[symmetric]
              simp del: drop_append)
    qed
  qed
qed

lemma strcmp_refl: "strcmp p p = 0"
  by (induction p) simp_all

lemma parent_of_char:
  "parent_of p =
    (let r = strip_trailing (c_str p) in
     if length r \<le> 1 then []
     else if CHR ''/'' \<notin> set r then r
     else if dirname r = [] then ''/'' else dirname r)"
  by (simp add: parent_of_def vfs_get_parent_dir_char Let_def)

lemma strip_trailing_prefix: "\<exists>zs. q = strip_trailing q @ zs"
proof -
  have "rev q = takeWhile (\<lambda>c. c = CHR ''/'') (rev q) @ dropWhile (\<lambda>c. c = CHR ''/'') (rev q)"
    by simp
  then have "q = rev (dropWhile (\<lambda>c. c = CHR ''/'') (rev q)) @ rev (takeWhile (\<lambda>c. c = CHR ''/'') (rev q))"
    by (metis rev_append rev_rev_ident)
  then show ?thesis unfolding strip_trailing_def by blast
qed

lemma c_str_prefix: "\<exists>zs. p = c_str p @ zs"
  unfolding c_str_def by (metis takeWhile_dropWhile_id)

lemma dirname_basename:
  assumes "CHR ''/'' \<in> set r"
  shows "r = dirname r @ CHR ''/'' # basename r"
proof -
  let ?P = "\<lambda>c. c \<noteq> CHR ''/''"
  have ne: "dropWhile ?P (rev r) \<noteq> []" using assms by simp
  then have hd: "hd (dropWhile ?P (rev r)) = CHR ''/''"
    using hd_dropWhile[of ?P "rev r"] by simp
  have "dropWhile ?P (rev r) = CHR ''/'' # tl (dropWhile ?P (rev r))"
    using ne hd by (cases "dropWhile ?P (rev r)") simp_all
  then have "rev r = takeWhile ?P (rev r) @ CHR ''/'' # tl (dropWhile ?P (rev r))"
    by (metis takeWhile_dropWhile_id)
  then have "rev (rev r) = rev (takeWhile ?P (rev r) @ CHR ''/'' # tl (dropWhile ?P (rev r)))"
    by simp
  then show ?thesis by (simp add: dirname_def basename_def)
qed

lemma parent_of_shorter:
  assumes "strcmp curpath (parent_of curpath) \<noteq> 0"
  shows "length (parent_of curpath) < length curpath"
proof -
  define q where "q = c_str curpath"
  define r where "r = strip_trailing q"
  obtain zs where zs: "curpath = q @ zs" unfolding q_def using c_str_prefix by blast
  obtain ys where ys: "q = r @ ys" unfolding r_def using strip_trailing_prefix by blast
  have po: "parent_of curpath =
     (if length r \<le> 1 then []
      else if CHR ''/'' \<notin> set r then r
      else if dirname r = [] then ''/'' else dirname r)"
    by (simp add: parent_of_char Let_def q_def r_def)
  show ?thesis
  proof (cases "length r \<le> 1")
    case True
    then have "parent_of curpath = []" using po by simp
    moreover have "curpath \<noteq> []" using assms calculation by auto
    ultimately show ?thesis by simp
  next
    case False
    note big = this
    show ?thesis
    proof (cases "CHR ''/'' \<in> set r")
      case False
      then have eq: "parent_of curpath = r" using po big by simp
      have "curpath \<noteq> r" using assms eq by (auto simp add: strcmp_refl)
      then have "ys @ zs \<noteq> []" using zs ys by auto
      then show ?thesis using eq zs ys by (cases "ys @ zs") auto
    next
      case True
      from dirname_basename[OF True] have "length r = length (dirname r) + 1 + length (basename r)"
        by (metis length_append length_Cons add.commute plus_1_eq_Suc add_Suc_right)
      then have d: "length (dirname r) < length r" by simp
      have l: "length r \<le> length curpath" using zs ys by simp
      show ?thesis using po big True d l by auto
    qed
  qed
qed

subsection \<open>vfs_open\<close>

text \<open>
  The loop of \<open>vfs_open\<close> that walks up from a path that does not resolve to the nearest
  ancestor that does; its result is \<open>pn\<close>. Each round replaces \<open>curpath\<close> by a shorter
  string, so the loop ends.
\<close>

function open_walk :: "'b vfs_env \<Rightarrow> 'b vfs_heap \<Rightarrow> string \<Rightarrow> tnode_ptr option" where
  "open_walk env h curpath =
    (let parent = parent_of curpath in
     if strcmp curpath parent = 0 then None
     else
       (case vfs_path_to_node env h parent of
          Some pn \<Rightarrow> Some pn
        | None \<Rightarrow> open_walk env h parent))"
  by pat_completeness auto
termination
  by (relation "measure (\<lambda>(env, h, curpath). length curpath)")
     (auto simp add: parent_of_shorter)

declare open_walk.simps [simp del]

text \<open>
  The first half of \<open>vfs_open\<close>: the tnode \<open>req\<close> that is opened, and the heap the
  provider's \<open>open\<close> leaves. \<open>Some (None, h)\<close> is the jump to \<open>fail\<close>. When the path
  resolves and the provider's \<open>open\<close> returns \<open>NULL\<close>, the code goes on to dereference it.
\<close>

definition vfs_open_find ::
  "'b vfs_env \<Rightarrow> 'b vfs_heap \<Rightarrow> string \<Rightarrow> (tnode_ptr option \<times> 'b vfs_heap) option" where
  "vfs_open_find env h path =
    (case vfs_path_to_node env h path of
       None \<Rightarrow>
         (case open_walk env h (c_str path) of
            None \<Rightarrow> Some (None, h)
          | Some pn \<Rightarrow>
              do {
                pn_tnode \<leftarrow> tnodes h pn;
                pn_inode \<leftarrow> inodes h (tn_inode pn_tnode);
                case i_fs pn_inode of
                  None \<Rightarrow> Some (None, h)
                | Some fsp \<Rightarrow> Some (fs_open (fsinfo env fsp) (tn_inode pn_tnode) path h)
              })
     | Some req \<Rightarrow>
         do {
           req_tnode \<leftarrow> tnodes h req;
           req_inode \<leftarrow> inodes h (tn_inode req_tnode);
           case i_fs req_inode of
             None \<Rightarrow> Some (Some req, h)
           | Some fsp \<Rightarrow>
               (case fs_open (fsinfo env fsp) (tn_inode req_tnode) path h of
                  (None, h1) \<Rightarrow> None
                | (Some req1, h1) \<Rightarrow> Some (Some req1, h1))
         })"

text \<open>
  The second half: the reference is counted, the descriptor is made (allocation is taken
  to succeed), the size is copied into the stat record, and the next handle is taken.
\<close>

definition vfs_open_desc ::
  "'b vfs_state \<Rightarrow> 'b vfs_heap \<Rightarrow> tnode_ptr \<Rightarrow> string \<Rightarrow> vfs_openmode_t \<Rightarrow>
    (vfs_handle_t \<times> 'b vfs_state) option" where
  "vfs_open_desc s h1 req path mode =
    do {
      req_tnode \<leftarrow> tnodes h1 req;
      req_inode \<leftarrow> inodes h1 (tn_inode req_tnode);
      let req_inode1 = req_inode\<lparr>i_refcount := i_refcount req_inode + 1\<rparr>;
      let h2 = set_inode h1 (tn_inode req_tnode) req_inode1;
      let nd = \<lparr>nd_tnode = req, nd_inode = tn_inode req_tnode, nd_mode = mode,
                nd_seek_pos = 0, nd_path = c_str path\<rparr>;
      let h3 = set_tnode h2 req
                 (req_tnode\<lparr>tn_st := (tn_st req_tnode)\<lparr>st_size := i_size req_inode1\<rparr>\<rparr>);
      let fh = vfs_next_handle s;
      Some (fh, ht_insert (s\<lparr>heap := h3, vfs_next_handle := vfs_next_handle s + 1\<rparr>) fh nd)
    }"

definition vfs_open ::
  "'b vfs_env \<Rightarrow> 'b vfs_state \<Rightarrow> string \<Rightarrow> vfs_openmode_t \<Rightarrow>
    (vfs_handle_t \<times> 'b vfs_state) option" where
  "vfs_open env s path mode =
    do {
      (req, h1) \<leftarrow> vfs_open_find env (heap s) path;
      case req of
        None \<Rightarrow> Some (VFS_INVALID_HANDLE env, s\<lparr>heap := h1\<rparr>)
      | Some r \<Rightarrow> vfs_open_desc s h1 r path mode
    }"

subsection \<open>vfs_close\<close>

text \<open>
  \<open>vfs_close_release\<close> is the state after the reference is dropped, the descriptor is
  freed and the handle is deleted from the table. \<open>kmfree(fd)\<close> comes before the last
  reads of \<open>fd->inode\<close> and \<open>fd->tnode\<close>; the allocator leaves the freed block as it is, so
  the reads see the pointers that the descriptor held.
\<close>

definition vfs_close_release ::
  "'b vfs_state \<Rightarrow> vfs_handle_t \<Rightarrow> vfs_node_desc_t \<Rightarrow> vfs_inode_t \<Rightarrow> 'b vfs_state" where
  "vfs_close_release s handle fd inode =
    ht_delete
      (s\<lparr>heap := set_inode (heap s) (nd_inode fd) (inode\<lparr>i_refcount := i_refcount inode - 1\<rparr>)\<rparr>)
      handle"

definition vfs_close ::
  "'b vfs_env \<Rightarrow> 'b vfs_state \<Rightarrow> vfs_handle_t \<Rightarrow> (int64_t \<times> 'b vfs_state) option" where
  "vfs_close env s handle =
    (case vfs_handle_to_fd s handle of
       None \<Rightarrow> Some (- 1, s)
     | Some fd \<Rightarrow>
         do {
           inode \<leftarrow> inodes (heap s) (nd_inode fd);
           let s1 = vfs_close_release s handle fd inode;
           inode1 \<leftarrow> inodes (heap s1) (nd_inode fd);
           if i_refcount inode1 = 0 then
             do {
               tnode \<leftarrow> tnodes (heap s1) (nd_tnode fd);
               if st_nlink (tn_st tnode) = 0 then
                 do {
                   fsp \<leftarrow> i_fs inode1;
                   case fs_rmnode (fsinfo env fsp) of
                     None \<Rightarrow> Some (0, s1)
                   | Some rmnode \<Rightarrow> Some (0, s1\<lparr>heap := rmnode (nd_tnode fd) (heap s1)\<rparr>)
                 }
               else Some (0, s1)
             }
           else Some (0, s1)
         })"

subsection \<open>Sequences of calls\<close>

datatype vfs_call =
    Call_open string vfs_openmode_t
  | Call_close vfs_handle_t
  | Call_read vfs_handle_t size_t buf_ptr
  | Call_write vfs_handle_t size_t buf_ptr
  | Call_seek vfs_handle_t size_t int64_t
  | Call_unlink string
  | Call_mount "string option" string string

fun vfs_do :: "'b vfs_env \<Rightarrow> 'b vfs_state \<Rightarrow> vfs_call \<Rightarrow> (int64_t \<times> 'b vfs_state) option" where
  "vfs_do env s (Call_open path mode) = vfs_open env s path mode"
| "vfs_do env s (Call_close handle) = vfs_close env s handle"
| "vfs_do env s (Call_read handle len buff) = vfs_read env s handle len buff"
| "vfs_do env s (Call_write handle len buff) = vfs_write env s handle len buff"
| "vfs_do env s (Call_seek handle pos whence) = vfs_seek s handle pos whence"
| "vfs_do env s (Call_unlink path) = vfs_unlink env s path"
| "vfs_do env s (Call_mount device path fsname) = vfs_mount env s device path fsname"

text \<open>A run of calls, one after the other, with the value each call returned.\<close>

fun vfs_run ::
  "'b vfs_env \<Rightarrow> 'b vfs_state \<Rightarrow> vfs_call list \<Rightarrow>
    ((vfs_call \<times> int64_t) list \<times> 'b vfs_state) option" where
  "vfs_run env s [] = Some ([], s)"
| "vfs_run env s (c # cs) =
     do {
       (r, s1) \<leftarrow> vfs_do env s c;
       (rs, s2) \<leftarrow> vfs_run env s1 cs;
       Some ((c, r) # rs, s2)
     }"

text \<open>The handles that the successful opens of a run returned, in order.\<close>

fun opened_handles :: "'b vfs_env \<Rightarrow> (vfs_call \<times> int64_t) list \<Rightarrow> vfs_handle_t list" where
  "opened_handles env [] = []"
| "opened_handles env ((Call_open path mode, r) # rs) =
     (if r = VFS_INVALID_HANDLE env then opened_handles env rs else r # opened_handles env rs)"
| "opened_handles env ((c, r) # rs) = opened_handles env rs"

section \<open>The offset of a seek, as the specification words it\<close>

text \<open>
  The specification computes the offset in the integers: \<open>pos\<close> for \<open>SEEK_SET\<close>,
  \<open>seek_pos + pos\<close> for \<open>SEEK_CUR\<close>, \<open>size - pos\<close> for \<open>SEEK_END\<close>.
\<close>

definition spec_seek_offset :: "int \<Rightarrow> int \<Rightarrow> int \<Rightarrow> int64_t \<Rightarrow> int" where
  "spec_seek_offset seek_pos sz pos whence =
    (if whence = SEEK_SET then pos
     else if whence = SEEK_CUR then seek_pos + pos
     else sz - pos)"

section \<open>Valid pointers\<close>

text \<open>
  The tnodes of the tree point to inodes that exist, and the resolver returns tnodes that
  exist.
\<close>

definition tnodes_valid :: "'b vfs_heap \<Rightarrow> bool" where
  "tnodes_valid h = (\<forall>t tn. tnodes h t = Some tn \<longrightarrow> inodes h (tn_inode tn) \<noteq> None)"

definition resolver_valid :: "'b vfs_env \<Rightarrow> 'b vfs_heap \<Rightarrow> bool" where
  "resolver_valid env h = (\<forall>p t. vfs_path_to_node env h p = Some t \<longrightarrow> tnodes h t \<noteq> None)"

section \<open>Reference counts\<close>



section \<open>An example system\<close>

text \<open>
  A small tree after boot: the root folder, the file \<open>/HELLOWLD.TXT\<close> of 100 bytes, open
  under handle 100, the non-empty folder \<open>/dev\<close> and the empty folder \<open>/disk\<close>. The
  provider 0 is an in-memory filesystem whose operations succeed; the provider 1, which
  \<open>/disk\<close> belongs to, needs a block device, and its \<open>read\<close> and \<open>write\<close> fail.
\<close>

definition ex_open :: "inode_ptr \<Rightarrow> string \<Rightarrow> unit vfs_heap \<Rightarrow> tnode_ptr option \<times> unit vfs_heap" where
  "ex_open i path h = (if path = ''/HELLOWLD.TXT'' then Some 1 else None, h)"

definition ex_ramfs :: "unit vfs_fsinfo_t" where
  "ex_ramfs = \<lparr>fs_name = ''ramfs'', istemp = True,
     fs_mount = (\<lambda>dev h. (0, h)),
     fs_open = ex_open,
     fs_read = (\<lambda>i off len buff h. (0, h)),
     fs_write = (\<lambda>i off len buff h. (0, h)),
     fs_sync = Some (\<lambda>i h. h),
     fs_rmnode = None\<rparr>"

definition ex_fat32 :: "unit vfs_fsinfo_t" where
  "ex_fat32 = \<lparr>fs_name = ''fat32'', istemp = False,
     fs_mount = (\<lambda>dev h. (0, h)),
     fs_open = (\<lambda>i path h. (None, h)),
     fs_read = (\<lambda>i off len buff h. (- 1, h)),
     fs_write = (\<lambda>i off len buff h. (- 1, h)),
     fs_sync = None,
     fs_rmnode = Some (\<lambda>t h. h\<lparr>tnodes := (tnodes h)(t := None)\<rparr>)\<rparr>"

definition ex_path_to_node :: "unit vfs_heap \<Rightarrow> string \<Rightarrow> tnode_ptr option" where
  "ex_path_to_node h path =
    (if path = [] \<or> path = ''/'' then Some 0
     else if path = ''/HELLOWLD.TXT'' then Some 1
     else if path = ''/dev'' then Some 2
     else if path = ''/disk'' then Some 3
     else if path = ''/dev/tty'' then Some 4
     else None)"

definition ex_env :: "unit vfs_env" where
  "ex_env = \<lparr>fsinfo = (\<lambda>f. if f = 0 then ex_ramfs else ex_fat32),
     vfs_path_to_node = ex_path_to_node,
     VFS_MIN_HANDLE = 100,
     VFS_INVALID_HANDLE = - 1,
     FS_NAME_SIZE = 16\<rparr>"

definition ex_stat :: "64 word \<Rightarrow> 32 word \<Rightarrow> 64 word \<Rightarrow> vfs_stat_t" where
  "ex_stat ino md sz = \<lparr>st_dev = 1, st_ino = ino, st_mode = md, st_nlink = 1, st_size = sz\<rparr>"

definition ex_folder :: "fs_ptr option \<Rightarrow> tnode_ptr list \<Rightarrow> vfs_inode_t" where
  "ex_folder f ch = \<lparr>i_type = VFS_NODE_FOLDER, i_size = 0, i_perms = 0x1FF, i_refcount = 0,
     i_fs = f, i_mountpoint = None, i_child = ch\<rparr>"

definition ex_file_inode :: vfs_inode_t where
  "ex_file_inode = \<lparr>i_type = VFS_NODE_FILE, i_size = 100, i_perms = 0x1FF, i_refcount = 1,
     i_fs = Some 0, i_mountpoint = None, i_child = []\<rparr>"

definition ex_file_tnode :: vfs_tnode_t where
  "ex_file_tnode = \<lparr>tn_name = ''HELLOWLD.TXT'', tn_inode = 1, tn_st = ex_stat 2 0 100,
     tn_parent = Some 0\<rparr>"

definition ex_folder_tnode :: "string \<Rightarrow> inode_ptr \<Rightarrow> 64 word \<Rightarrow> tnode_ptr option \<Rightarrow> vfs_tnode_t" where
  "ex_folder_tnode n i ino par = \<lparr>tn_name = n, tn_inode = i, tn_st = ex_stat ino 0x4000 0,
     tn_parent = par\<rparr>"

definition ex_heap :: "unit vfs_heap" where
  "ex_heap = \<lparr>
     inodes = [0 \<mapsto> ex_folder (Some 0) [1, 2, 3], 1 \<mapsto> ex_file_inode,
               2 \<mapsto> ex_folder (Some 0) [4], 3 \<mapsto> ex_folder (Some 1) [],
               4 \<mapsto> ex_folder (Some 0) []],
     tnodes = [0 \<mapsto> ex_folder_tnode ''/'' 0 1 None, 1 \<mapsto> ex_file_tnode,
               2 \<mapsto> ex_folder_tnode ''dev'' 2 3 (Some 0),
               3 \<mapsto> ex_folder_tnode ''disk'' 3 4 (Some 0),
               4 \<mapsto> ex_folder_tnode ''tty'' 4 5 (Some 2)],
     backend = ()\<rparr>"

definition ex_fd :: vfs_node_desc_t where
  "ex_fd = \<lparr>nd_tnode = 1, nd_inode = 1, nd_mode = VFS_MODE_READWRITE, nd_seek_pos = 0,
     nd_path = ''/HELLOWLD.TXT''\<rparr>"

definition ex_state :: "unit vfs_state" where
  "ex_state = \<lparr>heap = ex_heap, vfs_openfiles = [100 \<mapsto> ex_fd], vfs_next_handle = 101,
     vfs_fslist = [1, 0], ttyfh = 99\<rparr>"

definition ex_grown :: "unit vfs_heap" where
  "ex_grown = set_inode ex_heap 1 (ex_file_inode\<lparr>i_size := 121\<rparr>)"

text \<open>The same system with the file on the provider whose \<open>write\<close> fails.\<close>

definition ex_state_fat :: "unit vfs_state" where
  "ex_state_fat = ex_state\<lparr>heap := set_inode ex_heap 1 (ex_file_inode\<lparr>i_fs := Some 1\<rparr>)\<rparr>"

text \<open>The same system with a file of \<open>2^63\<close> bytes.\<close>

definition ex_state_huge :: "unit vfs_state" where
  "ex_state_huge = ex_state\<lparr>heap := set_inode ex_heap 1 (ex_file_inode\<lparr>i_size := 2 ^ 63\<rparr>)\<rparr>"

text \<open>Two opens of the file, an open that fails and a seek.\<close>

definition ex_calls :: "vfs_call list" where
  "ex_calls = [Call_open ''/HELLOWLD.TXT'' VFS_MODE_READ, Call_seek 101 10 SEEK_SET,
               Call_open ''/nothing'' VFS_MODE_READ, Call_open ''/HELLOWLD.TXT'' VFS_MODE_READWRITE]"

lemmas ex_defs =
  ex_open_def ex_ramfs_def ex_fat32_def ex_path_to_node_def ex_env_def ex_stat_def
  ex_folder_def ex_file_inode_def ex_file_tnode_def ex_folder_tnode_def ex_heap_def ex_fd_def
  ex_state_def

section \<open>Signed and unsigned readings of 64-bit words\<close>

lemma pow63: "(2::int) ^ 63 = 9223372036854775808" "(2::int) ^ 64 = 18446744073709551616"
  "(2::int) ^ Suc 63 = 18446744073709551616"
  by simp_all

lemma stb63_in_range:
  fixes k S :: int
  assumes k: "- (2 ^ 63) \<le> k" "k < 2 ^ 64" and S: "S < 2 ^ 63"
  shows "(0 \<le> signed_take_bit 63 k \<and> signed_take_bit 63 k \<le> S) = (0 \<le> k \<and> k \<le> S)"
proof (cases "k < 2 ^ 63")
  case True
  then have "signed_take_bit 63 k = k"
    using k(1) by (rule_tac signed_take_bit_int_eq_self)
  then show ?thesis by simp
next
  case False
  then have ge: "2 ^ 63 \<le> k" by simp
  have "signed_take_bit 63 k \<le> k - 2 ^ Suc 63"
    by (rule signed_take_bit_int_less_eq [OF ge])
  then have "signed_take_bit 63 k < 0" using k(2) unfolding pow63 by linarith
  then show ?thesis using ge S by linarith
qed

lemma sint_eq_uint_small:
  fixes a :: "64 word"
  assumes "uint a < 2 ^ 63"
  shows "sint a = uint a"
proof -
  have "- (2 ^ 63) \<le> uint a" using uint_ge_0[of a] unfolding pow63 by linarith
  then have "signed_take_bit 63 (uint a) = uint a"
    using assms by (rule signed_take_bit_int_eq_self)
  then show ?thesis by (simp add: sint_uint)
qed

lemma sint_bounds64:
  fixes p :: "64 word"
  shows "- (2 ^ 63) \<le> sint p" "sint p < 2 ^ 63"
  using sint_ge[of p] sint_lt[of p] by simp_all

lemma sint_add_in_range:
  fixes a p :: "64 word"
  assumes a: "uint a < 2 ^ 63" and S: "(S::int) < 2 ^ 63"
  shows "(0 \<le> sint (a + p) \<and> sint (a + p) \<le> S) = (0 \<le> uint a + sint p \<and> uint a + sint p \<le> S)"
proof -
  have sa: "sint a = uint a" using a by (rule sint_eq_uint_small)
  have eq: "sint (a + p) = signed_take_bit 63 (uint a + sint p)"
    by (simp add: sint_word_add sa)
  have "- (2 ^ 63) \<le> uint a + sint p" using sint_bounds64(1)[of p] uint_ge_0[of a] by linarith
  moreover have "uint a + sint p < 2 ^ 64" using a sint_bounds64(2)[of p] unfolding pow63 by linarith
  ultimately show ?thesis unfolding eq using S by (rule stb63_in_range)
qed

lemma sint_sub_in_range:
  fixes a p :: "64 word"
  assumes a: "uint a < 2 ^ 63" and S: "(S::int) < 2 ^ 63"
  shows "(0 \<le> sint (a - p) \<and> sint (a - p) \<le> S) = (0 \<le> uint a - sint p \<and> uint a - sint p \<le> S)"
proof -
  have sa: "sint a = uint a" using a by (rule sint_eq_uint_small)
  have eq: "sint (a - p) = signed_take_bit 63 (uint a - sint p)"
    by (simp add: sint_word_diff sa)
  have "- (2 ^ 63) \<le> uint a - sint p" using sint_bounds64(2)[of p] uint_ge_0[of a] by linarith
  moreover have "uint a - sint p < 2 ^ 64" using a sint_bounds64(1)[of p] unfolding pow63 by linarith
  ultimately show ?thesis unfolding eq using S by (rule stb63_in_range)
qed

lemma sint_nonneg_le_iff:
  fixes p S :: "64 word"
  assumes S: "uint S < 2 ^ 63"
  shows "(0 \<le> sint p \<and> sint p \<le> uint S) = (p \<le> S)"
proof (cases "uint p < 2 ^ 63")
  case True
  then have "sint p = uint p" by (rule sint_eq_uint_small)
  then show ?thesis by (simp add: word_le_def)
next
  case False
  then have ge: "2 ^ 63 \<le> uint p" by simp
  have "signed_take_bit 63 (uint p) \<le> uint p - 2 ^ Suc 63"
    using ge by (rule signed_take_bit_int_less_eq)
  moreover have "uint p < 2 ^ 64" using uint_lt2p[of p] by simp
  moreover have "sint p = signed_take_bit 63 (uint p)" by (simp add: sint_uint)
  ultimately have "sint p < 0" unfolding pow63 by linarith
  moreover have "\<not> uint p \<le> uint S" using ge S by linarith
  ultimately show ?thesis unfolding word_le_def by linarith
qed

lemma sint_neg_big:
  fixes S :: "64 word"
  assumes "2 ^ 63 \<le> uint S"
  shows "sint S < 0"
proof -
  have "signed_take_bit 63 (uint S) \<le> uint S - 2 ^ Suc 63"
    using assms by (rule signed_take_bit_int_less_eq)
  moreover have "uint S < 2 ^ 64" using uint_lt2p[of S] by simp
  moreover have "sint S = signed_take_bit 63 (uint S)" by (simp add: sint_uint)
  ultimately show ?thesis unfolding pow63 by linarith
qed

section \<open>vfs_seek\<close>

lemma seek_consts_distinct:
  "SEEK_SET \<noteq> SEEK_CUR" "SEEK_SET \<noteq> SEEK_END" "SEEK_CUR \<noteq> SEEK_END"
  "SEEK_CUR \<noteq> SEEK_SET" "SEEK_END \<noteq> SEEK_SET" "SEEK_END \<noteq> SEEK_CUR"
  by (simp_all add: SEEK_SET_def SEEK_CUR_def SEEK_END_def)

lemma vfs_seek_words:
  assumes fd: "vfs_handle_to_fd s h = Some fd"
    and ino: "inodes (heap s) (nd_inode fd) = Some ino"
  shows "vfs_seek s h p whence =
      (let offset = (if whence = SEEK_SET then p
                     else if whence = SEEK_CUR then nd_seek_pos fd + p
                     else if whence = SEEK_END then i_size ino - p else - 1)
       in if sint offset < 0 \<or> sint (i_size ino) < sint offset then Some (- 1, s)
          else Some (offset, set_fd s h (fd\<lparr>nd_seek_pos := offset\<rparr>)))"
  using fd ino by (auto simp add: vfs_seek_def Let_def)

lemma vfs_seek_set_unsigned:
  assumes fd: "vfs_handle_to_fd s h = Some fd"
    and ino: "inodes (heap s) (nd_inode fd) = Some ino"
    and sz: "uint (i_size ino) < 2 ^ 63"
  shows "vfs_seek s h p SEEK_SET =
      (if p \<le> i_size ino then Some (p, set_fd s h (fd\<lparr>nd_seek_pos := p\<rparr>)) else Some (- 1, s))"
proof -
  have ss: "sint (i_size ino) = uint (i_size ino)" using sz by (rule sint_eq_uint_small)
  have "(0 \<le> sint p \<and> sint p \<le> uint (i_size ino)) = (p \<le> i_size ino)"
    using sz by (rule sint_nonneg_le_iff)
  then show ?thesis
    unfolding vfs_seek_words[OF fd ino] Let_def ss
    by (auto simp add: not_less not_le)
qed

text \<open>
  C1. For an open handle \<open>h\<close> on a file of size \<open>S\<close> and a position \<open>p\<close>, \<open>vfs_seek\<close>
  computes the offset \<open>p\<close> for \<open>SEEK_SET\<close>, \<open>seek_pos + p\<close> for \<open>SEEK_CUR\<close> and \<open>S - p\<close> for
  \<open>SEEK_END\<close> in 64-bit arithmetic, the sum and the difference wrapping around, and
  compares it as a signed number with \<open>(int64_t)S\<close>. It returns \<open>- 1\<close> and changes nothing
  exactly when the signed offset is negative or greater than \<open>(int64_t)S\<close>; otherwise it
  returns the offset, the descriptor of \<open>h\<close> has it as its seek position afterwards, and
  nothing else changes. When \<open>S\<close> and the seek position are below \<open>2^63\<close> and \<open>p\<close> is read as
  the signed number that is passed, the offset is the one of the specification, computed
  in the integers, and the seek fails exactly when that lies outside \<open>[0, S]\<close>; for
  \<open>SEEK_SET\<close> and \<open>S < 2^63\<close> the seek succeeds if and only if \<open>0 \<le> p \<le> S\<close>. When \<open>S\<close> is
  \<open>2^63\<close> or more, \<open>(int64_t)S\<close> is negative and every seek fails.
\<close>

theorem vfs_seek_offset_bounds:
  assumes fd: "vfs_handle_to_fd s h = Some fd"
    and ino: "inodes (heap s) (nd_inode fd) = Some ino"
    and wh: "whence = SEEK_SET \<or> whence = SEEK_CUR \<or> whence = SEEK_END"
    and off: "offset = (if whence = SEEK_SET then p
                        else if whence = SEEK_CUR then nd_seek_pos fd + p
                        else i_size ino - p)"
  shows "(sint offset < 0 \<or> sint (i_size ino) < sint offset \<longrightarrow>
            vfs_seek s h p whence = Some (- 1, s))
    \<and> (0 \<le> sint offset \<and> sint offset \<le> sint (i_size ino) \<longrightarrow>
          vfs_seek s h p whence =
            Some (offset, s\<lparr>vfs_openfiles := (vfs_openfiles s)(h \<mapsto> fd\<lparr>nd_seek_pos := offset\<rparr>)\<rparr>)
          \<and> vfs_handle_to_fd (snd (the (vfs_seek s h p whence))) h = Some (fd\<lparr>nd_seek_pos := offset\<rparr>)
          \<and> (\<forall>h'. h' \<noteq> h \<longrightarrow>
                vfs_handle_to_fd (snd (the (vfs_seek s h p whence))) h' = vfs_handle_to_fd s h'))
    \<and> (uint (i_size ino) < 2 ^ 63 \<and> uint (nd_seek_pos fd) < 2 ^ 63 \<longrightarrow>
          (let t = spec_seek_offset (uint (nd_seek_pos fd)) (uint (i_size ino)) (sint p) whence in
             (t < 0 \<or> uint (i_size ino) < t \<longrightarrow> vfs_seek s h p whence = Some (- 1, s))
             \<and> (0 \<le> t \<and> t \<le> uint (i_size ino) \<longrightarrow>
                   uint offset = t
                   \<and> vfs_seek s h p whence =
                       Some (offset, s\<lparr>vfs_openfiles := (vfs_openfiles s)(h \<mapsto> fd\<lparr>nd_seek_pos := offset\<rparr>)\<rparr>)
                   \<and> map_option nd_seek_pos (vfs_handle_to_fd (snd (the (vfs_seek s h p whence))) h)
                       = Some offset)))
    \<and> (uint (i_size ino) < 2 ^ 63 \<longrightarrow>
          (p \<le> i_size ino \<longrightarrow>
             vfs_seek s h p SEEK_SET =
               Some (p, s\<lparr>vfs_openfiles := (vfs_openfiles s)(h \<mapsto> fd\<lparr>nd_seek_pos := p\<rparr>)\<rparr>))
          \<and> (\<not> p \<le> i_size ino \<longrightarrow> vfs_seek s h p SEEK_SET = Some (- 1, s)))
    \<and> (2 ^ 63 \<le> uint (i_size ino) \<longrightarrow> vfs_seek s h p whence = Some (- 1, s))"
proof -
  have w: "vfs_seek s h p whence =
      (if sint offset < 0 \<or> sint (i_size ino) < sint offset then Some (- 1, s)
       else Some (offset, s\<lparr>vfs_openfiles := (vfs_openfiles s)(h \<mapsto> fd\<lparr>nd_seek_pos := offset\<rparr>)\<rparr>))"
    unfolding vfs_seek_words[OF fd ino] off set_fd_def using wh by (auto simp add: Let_def)
  have c1: "sint offset < 0 \<or> sint (i_size ino) < sint offset \<longrightarrow>
            vfs_seek s h p whence = Some (- 1, s)"
    unfolding w by simp
  have c2: "0 \<le> sint offset \<and> sint offset \<le> sint (i_size ino) \<longrightarrow>
          vfs_seek s h p whence =
            Some (offset, s\<lparr>vfs_openfiles := (vfs_openfiles s)(h \<mapsto> fd\<lparr>nd_seek_pos := offset\<rparr>)\<rparr>)
          \<and> vfs_handle_to_fd (snd (the (vfs_seek s h p whence))) h = Some (fd\<lparr>nd_seek_pos := offset\<rparr>)
          \<and> (\<forall>h'. h' \<noteq> h \<longrightarrow>
                vfs_handle_to_fd (snd (the (vfs_seek s h p whence))) h' = vfs_handle_to_fd s h')"
    unfolding w by (auto simp add: vfs_handle_to_fd_def)
  have c3: "uint (i_size ino) < 2 ^ 63 \<and> uint (nd_seek_pos fd) < 2 ^ 63 \<longrightarrow>
          (let t = spec_seek_offset (uint (nd_seek_pos fd)) (uint (i_size ino)) (sint p) whence in
             (t < 0 \<or> uint (i_size ino) < t \<longrightarrow> vfs_seek s h p whence = Some (- 1, s))
             \<and> (0 \<le> t \<and> t \<le> uint (i_size ino) \<longrightarrow>
                   uint offset = t
                   \<and> vfs_seek s h p whence =
                       Some (offset, s\<lparr>vfs_openfiles := (vfs_openfiles s)(h \<mapsto> fd\<lparr>nd_seek_pos := offset\<rparr>)\<rparr>)
                   \<and> map_option nd_seek_pos (vfs_handle_to_fd (snd (the (vfs_seek s h p whence))) h)
                       = Some offset))"
  proof (intro impI, elim conjE)
    assume sz: "uint (i_size ino) < 2 ^ 63" and sp: "uint (nd_seek_pos fd) < 2 ^ 63"
    define t where "t = spec_seek_offset (uint (nd_seek_pos fd)) (uint (i_size ino)) (sint p) whence"
    have ss: "sint (i_size ino) = uint (i_size ino)" using sz by (rule sint_eq_uint_small)
    have cur: "(0 \<le> sint (nd_seek_pos fd + p) \<and> sint (nd_seek_pos fd + p) \<le> uint (i_size ino))
       = (0 \<le> uint (nd_seek_pos fd) + sint p \<and> uint (nd_seek_pos fd) + sint p \<le> uint (i_size ino))"
      using sp sz by (rule sint_add_in_range)
    have en: "(0 \<le> sint (i_size ino - p) \<and> sint (i_size ino - p) \<le> uint (i_size ino))
       = (0 \<le> uint (i_size ino) - sint p \<and> uint (i_size ino) - sint p \<le> uint (i_size ino))"
      using sz sz by (rule sint_sub_in_range)
    have st: "(0 \<le> sint p \<and> sint p \<le> uint (i_size ino)) = (0 \<le> sint p \<and> sint p \<le> uint (i_size ino))"
      by simp
    have wo: "word_of_int t = offset"
      unfolding t_def spec_seek_offset_def off using wh seek_consts_distinct by auto
    have iff: "(0 \<le> sint offset \<and> sint offset \<le> uint (i_size ino)) = (0 \<le> t \<and> t \<le> uint (i_size ino))"
      unfolding t_def spec_seek_offset_def off using wh cur en seek_consts_distinct by auto
    have ut: "0 \<le> t \<and> t \<le> uint (i_size ino) \<Longrightarrow> uint offset = t"
    proof -
      assume a: "0 \<le> t \<and> t \<le> uint (i_size ino)"
      then have "t < 2 ^ 64" using sz unfolding pow63 by linarith
      then have "uint (word_of_int t :: 64 word) = t" using a
        by (simp add: uint_word_of_int take_bit_int_eq_self)
      then show ?thesis by (simp add: wo)
    qed
    show "let t = spec_seek_offset (uint (nd_seek_pos fd)) (uint (i_size ino)) (sint p) whence in
             (t < 0 \<or> uint (i_size ino) < t \<longrightarrow> vfs_seek s h p whence = Some (- 1, s))
             \<and> (0 \<le> t \<and> t \<le> uint (i_size ino) \<longrightarrow>
                   uint offset = t
                   \<and> vfs_seek s h p whence =
                       Some (offset, s\<lparr>vfs_openfiles := (vfs_openfiles s)(h \<mapsto> fd\<lparr>nd_seek_pos := offset\<rparr>)\<rparr>)
                   \<and> map_option nd_seek_pos (vfs_handle_to_fd (snd (the (vfs_seek s h p whence))) h)
                       = Some offset)"
      unfolding Let_def t_def[symmetric]
      using iff ut c1 c2 unfolding ss by (auto simp add: not_le not_less)
  qed
  have c4: "uint (i_size ino) < 2 ^ 63 \<longrightarrow>
          (p \<le> i_size ino \<longrightarrow>
             vfs_seek s h p SEEK_SET =
               Some (p, s\<lparr>vfs_openfiles := (vfs_openfiles s)(h \<mapsto> fd\<lparr>nd_seek_pos := p\<rparr>)\<rparr>))
          \<and> (\<not> p \<le> i_size ino \<longrightarrow> vfs_seek s h p SEEK_SET = Some (- 1, s))"
    using vfs_seek_set_unsigned[OF fd ino, of p] by (simp add: set_fd_def)
  have c5: "2 ^ 63 \<le> uint (i_size ino) \<longrightarrow> vfs_seek s h p whence = Some (- 1, s)"
  proof
    assume "2 ^ 63 \<le> uint (i_size ino)"
    then have "sint (i_size ino) < 0" by (rule sint_neg_big)
    then have "sint offset < 0 \<or> sint (i_size ino) < sint offset" by linarith
    then show "vfs_seek s h p whence = Some (- 1, s)" using c1 by simp
  qed
  show ?thesis using c1 c2 c3 c4 c5 by blast
qed

text \<open>
  The file of the example has 100 bytes: a seek to 10 from the end gives 90, which the
  descriptor then holds, and a seek to 101 from the start fails.
\<close>

theorem vfs_seek_offset_bounds_witness:
  "vfs_handle_to_fd ex_state 100 = Some ex_fd
   \<and> inodes (heap ex_state) (nd_inode ex_fd) = Some ex_file_inode
   \<and> (90 :: 64 word) = i_size ex_file_inode - 10
   \<and> 0 \<le> sint (90 :: 64 word) \<and> sint (90 :: 64 word) \<le> sint (i_size ex_file_inode)
   \<and> vfs_seek ex_state 100 10 SEEK_END
       = Some (90, ex_state\<lparr>vfs_openfiles := [100 \<mapsto> ex_fd\<lparr>nd_seek_pos := 90\<rparr>]\<rparr>)
   \<and> vfs_handle_to_fd (snd (the (vfs_seek ex_state 100 10 SEEK_END))) 100
       = Some (ex_fd\<lparr>nd_seek_pos := 90\<rparr>)
   \<and> sint (i_size ex_file_inode) < sint (101 :: 64 word)
   \<and> vfs_seek ex_state 100 101 SEEK_SET = Some (- 1, ex_state)"
proof -
  have fd: "vfs_handle_to_fd ex_state 100 = Some ex_fd"
    by (simp add: vfs_handle_to_fd_def ex_state_def)
  have ino: "inodes (heap ex_state) (nd_inode ex_fd) = Some ex_file_inode"
    by (simp add: ex_state_def ex_heap_def ex_fd_def)
  have sz: "i_size ex_file_inode = 100" by (simp add: ex_file_inode_def)
  have wh: "SEEK_END = SEEK_SET \<or> SEEK_END = SEEK_CUR \<or> SEEK_END = SEEK_END" by simp
  have wh2: "SEEK_SET = SEEK_SET \<or> SEEK_SET = SEEK_CUR \<or> SEEK_SET = SEEK_END" by simp
  have off: "(90 :: 64 word) = (if SEEK_END = SEEK_SET then 10
                        else if SEEK_END = SEEK_CUR then nd_seek_pos ex_fd + 10
                        else i_size ex_file_inode - 10)"
    by (simp add: sz seek_consts_distinct)
  have off2: "(101 :: 64 word) = (if SEEK_SET = SEEK_SET then 101
                        else if SEEK_SET = SEEK_CUR then nd_seek_pos ex_fd + 101
                        else i_size ex_file_inode - 101)"
    by simp
  have of: "vfs_openfiles ex_state = [100 \<mapsto> ex_fd]" by (simp add: ex_state_def)
  have in1: "0 \<le> sint (90 :: 64 word) \<and> sint (90 :: 64 word) \<le> sint (i_size ex_file_inode)"
    by (simp add: sz)
  have out: "sint (i_size ex_file_inode) < sint (101 :: 64 word)" by (simp add: sz)
  have a: "vfs_seek ex_state 100 10 SEEK_END
       = Some (90, ex_state\<lparr>vfs_openfiles := [100 \<mapsto> ex_fd\<lparr>nd_seek_pos := 90\<rparr>]\<rparr>)"
     "vfs_handle_to_fd (snd (the (vfs_seek ex_state 100 10 SEEK_END))) 100
       = Some (ex_fd\<lparr>nd_seek_pos := 90\<rparr>)"
    using vfs_seek_offset_bounds[OF fd ino wh off, THEN conjunct2, THEN conjunct1, THEN mp, OF in1]
    by (simp_all add: of vfs_handle_to_fd_def)
  have b: "vfs_seek ex_state 100 101 SEEK_SET = Some (- 1, ex_state)"
    using vfs_seek_offset_bounds[OF fd ino wh2 off2, THEN conjunct1] out by simp
  show ?thesis using fd ino a b in1 out by (simp add: sz)
qed

text \<open>
  On a file of \<open>2^63\<close> bytes the seek to the start fails, although \<open>0 \<le> 0 \<le> S\<close>: the
  size is compared as \<open>(int64_t)S = - 2^63\<close>.
\<close>

theorem vfs_seek_huge_counterexample:
  "vfs_handle_to_fd ex_state_huge 100 = Some ex_fd
   \<and> map_option i_size (inodes (heap ex_state_huge) (nd_inode ex_fd)) = Some (2 ^ 63)
   \<and> (0 :: int) \<le> uint (0 :: 64 word) \<and> uint (0 :: 64 word) \<le> uint (2 ^ 63 :: 64 word)
   \<and> vfs_seek ex_state_huge 100 0 SEEK_SET = Some (- 1, ex_state_huge)"
  by (simp add: vfs_seek_def vfs_handle_to_fd_def ex_state_huge_def ex_state_def ex_fd_def
      set_inode_def ex_heap_def ex_file_inode_def SEEK_SET_def Let_def)

text \<open>
  C10. For an open handle, \<open>vfs_seek\<close> with a \<open>whence\<close> other than \<open>SEEK_SET = 3\<close>,
  \<open>SEEK_CUR = 1\<close> and \<open>SEEK_END = 2\<close> returns \<open>- 1\<close> and leaves the state, and with it
  the seek position of the descriptor, unchanged: the offset stays \<open>- 1\<close> and the bounds
  check rejects it.
\<close>

theorem vfs_seek_bad_whence:
  assumes fd: "vfs_handle_to_fd s h = Some fd"
    and ino: "inodes (heap s) (nd_inode fd) = Some ino"
    and wh: "whence \<noteq> 3" "whence \<noteq> 1" "whence \<noteq> 2"
  shows "SEEK_SET = 3 \<and> SEEK_CUR = 1 \<and> SEEK_END = 2
    \<and> vfs_seek s h p whence = Some (- 1, s)
    \<and> vfs_handle_to_fd (snd (the (vfs_seek s h p whence))) h = Some fd"
  unfolding vfs_seek_words[OF fd ino] using wh fd
  by (simp add: SEEK_SET_def SEEK_CUR_def SEEK_END_def)

theorem vfs_seek_bad_whence_witness:
  "vfs_handle_to_fd ex_state 100 = Some ex_fd
   \<and> inodes (heap ex_state) (nd_inode ex_fd) = Some ex_file_inode
   \<and> vfs_seek ex_state 100 5 0 = Some (- 1, ex_state)"
proof -
  have fd: "vfs_handle_to_fd ex_state 100 = Some ex_fd"
    by (simp add: vfs_handle_to_fd_def ex_state_def)
  have ino: "inodes (heap ex_state) (nd_inode ex_fd) = Some ex_file_inode"
    by (simp add: ex_state_def ex_heap_def ex_fd_def)
  have "vfs_seek ex_state 100 5 0 = Some (- 1, ex_state)"
    using vfs_seek_bad_whence[OF fd ino, of 0 5] by simp
  then show ?thesis using fd ino by simp
qed

section \<open>vfs_read\<close>

lemma vfs_read_unfold:
  assumes fd: "vfs_handle_to_fd s h = Some fd"
    and ino: "inodes (heap s) (nd_inode fd) = Some ino"
  shows "vfs_read env s h len buff =
    (let truncate = (nd_seek_pos fd + len > i_size ino \<and> h \<noteq> ttyfh s);
         len1 = (if truncate then i_size ino - nd_seek_pos fd else len)
     in if truncate \<and> len1 = 0 then Some (0, s)
        else (case i_fs ino of
                None \<Rightarrow> None
              | Some f \<Rightarrow>
                  (case fs_read (fsinfo env f) (nd_inode fd) (nd_seek_pos fd) len1 buff (heap s) of
                     (status, h1) \<Rightarrow>
                       if status = - 1 then Some (0, s\<lparr>heap := h1\<rparr>)
                       else Some (len1, s\<lparr>heap := h1, vfs_openfiles := (vfs_openfiles s)
                                          (h \<mapsto> fd\<lparr>nd_seek_pos := nd_seek_pos fd + len1\<rparr>)\<rparr>))))"
proof -
  have same: "(vfs_openfiles s)(h \<mapsto> fd) = vfs_openfiles s"
    using fd by (auto simp add: vfs_handle_to_fd_def)
  show ?thesis
    using fd ino
    by (auto simp add: vfs_read_def set_fd_def Let_def same split: option.splits prod.splits)
qed

text \<open>
  C2. For an open handle other than the reserved TTY handle, a read with
  \<open>seek_pos + len > size\<close> truncates \<open>len\<close> to \<open>size - seek_pos\<close>; when that is zero it
  returns 0 and the provider is not called (the state, the back-end's part included, is
  unchanged). When the provider's read returns \<open>- 1\<close> the result is 0 and the descriptor,
  with its seek position, is as before; otherwise the truncated length is returned and
  the descriptor of the handle has the seek position advanced by it. The TTY handle, and
  a read within the size, pass \<open>len\<close> on as it is. In every case the call returns, the
  descriptor found under the handle afterwards is the old one with the seek position
  advanced by the value returned, and the other handles are as before. The sum, the
  difference and the comparison are those of \<open>size_t\<close>; the last conjunct is the bound in
  the natural numbers, for a seek position within the file.
\<close>

theorem vfs_read_truncates:
  assumes fd: "vfs_handle_to_fd s h = Some fd"
    and ino: "inodes (heap s) (nd_inode fd) = Some ino"
    and fs: "i_fs ino = Some f"
    and rd: "fs_read (fsinfo env f) (nd_inode fd) (nd_seek_pos fd)
               (if nd_seek_pos fd + len > i_size ino \<and> h \<noteq> ttyfh s
                then i_size ino - nd_seek_pos fd else len) buff (heap s) = (status, h1)"
  shows "(h \<noteq> ttyfh s \<and> nd_seek_pos fd + len > i_size ino \<and> i_size ino - nd_seek_pos fd = 0 \<longrightarrow>
            vfs_read env s h len buff = Some (0, s))
    \<and> (h \<noteq> ttyfh s \<and> nd_seek_pos fd + len > i_size ino \<and> i_size ino - nd_seek_pos fd \<noteq> 0 \<longrightarrow>
          vfs_read env s h len buff =
            (if status = - 1 then Some (0, s\<lparr>heap := h1\<rparr>)
             else Some (i_size ino - nd_seek_pos fd,
                    s\<lparr>heap := h1, vfs_openfiles := (vfs_openfiles s)
                        (h \<mapsto> fd\<lparr>nd_seek_pos := nd_seek_pos fd + (i_size ino - nd_seek_pos fd)\<rparr>)\<rparr>)))
    \<and> (h = ttyfh s \<or> \<not> nd_seek_pos fd + len > i_size ino \<longrightarrow>
          vfs_read env s h len buff =
            (if status = - 1 then Some (0, s\<lparr>heap := h1\<rparr>)
             else Some (len, s\<lparr>heap := h1, vfs_openfiles := (vfs_openfiles s)
                                 (h \<mapsto> fd\<lparr>nd_seek_pos := nd_seek_pos fd + len\<rparr>)\<rparr>)))
    \<and> vfs_read env s h len buff \<noteq> None
    \<and> vfs_handle_to_fd (snd (the (vfs_read env s h len buff))) h
        = Some (fd\<lparr>nd_seek_pos := nd_seek_pos fd + fst (the (vfs_read env s h len buff))\<rparr>)
    \<and> (\<forall>h'. h' \<noteq> h \<longrightarrow>
          vfs_handle_to_fd (snd (the (vfs_read env s h len buff))) h' = vfs_handle_to_fd s h')
    \<and> (status = - 1 \<or> (h \<noteq> ttyfh s \<and> nd_seek_pos fd + len > i_size ino
                          \<and> i_size ino - nd_seek_pos fd = 0) \<longrightarrow>
          fst (the (vfs_read env s h len buff)) = 0
          \<and> vfs_handle_to_fd (snd (the (vfs_read env s h len buff))) h = Some fd)
    \<and> (h \<noteq> ttyfh s \<and> nd_seek_pos fd + len > i_size ino \<and> nd_seek_pos fd \<le> i_size ino \<longrightarrow>
          unat (fst (the (vfs_read env s h len buff))) \<le> unat (i_size ino) - unat (nd_seek_pos fd))"
proof -
  note u = vfs_read_unfold[OF fd ino, of env len buff]
  have sub: "nd_seek_pos fd \<le> i_size ino \<Longrightarrow>
      unat (i_size ino - nd_seek_pos fd) = unat (i_size ino) - unat (nd_seek_pos fd)"
    by (rule unat_sub)
  have fd': "vfs_openfiles s h = Some fd" using fd by (simp add: vfs_handle_to_fd_def)
  show ?thesis
    using rd fs sub fd' unfolding u Let_def
    by (auto simp add: vfs_handle_to_fd_def split: if_splits)
qed

text \<open>
  A read of 1023 bytes at the start of the 100-byte file returns 100 bytes, and the
  descriptor then has the seek position 100.
\<close>

theorem vfs_read_truncates_witness:
  "vfs_handle_to_fd ex_state 100 = Some ex_fd
   \<and> (100 :: 64 word) \<noteq> ttyfh ex_state
   \<and> nd_seek_pos ex_fd + 1023 > i_size ex_file_inode
   \<and> i_size ex_file_inode - nd_seek_pos ex_fd \<noteq> 0
   \<and> vfs_read ex_env ex_state 100 1023 0
       = Some (100, ex_state\<lparr>vfs_openfiles := [100 \<mapsto> ex_fd\<lparr>nd_seek_pos := 100\<rparr>]\<rparr>)
   \<and> vfs_handle_to_fd (snd (the (vfs_read ex_env ex_state 100 1023 0))) 100
       = Some (ex_fd\<lparr>nd_seek_pos := 100\<rparr>)"
proof -
  have fd: "vfs_handle_to_fd ex_state 100 = Some ex_fd"
    by (simp add: vfs_handle_to_fd_def ex_state_def)
  have ino: "inodes (heap ex_state) (nd_inode ex_fd) = Some ex_file_inode"
    by (simp add: ex_state_def ex_heap_def ex_fd_def)
  have fs: "i_fs ex_file_inode = Some 0" by (simp add: ex_file_inode_def)
  have tty: "(100 :: 64 word) \<noteq> ttyfh ex_state" by (simp add: ex_state_def)
  have over: "nd_seek_pos ex_fd + 1023 > i_size ex_file_inode"
    by (simp add: ex_fd_def ex_file_inode_def)
  have nz: "i_size ex_file_inode - nd_seek_pos ex_fd \<noteq> 0"
    by (simp add: ex_fd_def ex_file_inode_def)
  have rd: "fs_read (fsinfo ex_env 0) (nd_inode ex_fd) (nd_seek_pos ex_fd)
       (if nd_seek_pos ex_fd + 1023 > i_size ex_file_inode \<and> 100 \<noteq> ttyfh ex_state
        then i_size ex_file_inode - nd_seek_pos ex_fd else 1023) 0 (heap ex_state)
       = (0, heap ex_state)"
    by (simp add: ex_env_def ex_ramfs_def)
  have hyp: "100 \<noteq> ttyfh ex_state \<and> nd_seek_pos ex_fd + 1023 > i_size ex_file_inode
      \<and> i_size ex_file_inode - nd_seek_pos ex_fd \<noteq> 0"
    using tty over nz by simp
  have a: "vfs_read ex_env ex_state 100 1023 0
       = Some (100, ex_state\<lparr>vfs_openfiles := [100 \<mapsto> ex_fd\<lparr>nd_seek_pos := 100\<rparr>]\<rparr>)"
    using vfs_read_truncates[OF fd ino fs rd, THEN conjunct2, THEN conjunct1, THEN mp, OF hyp]
    by (simp add: ex_fd_def ex_file_inode_def ex_state_def)
  have b: "vfs_handle_to_fd (snd (the (vfs_read ex_env ex_state 100 1023 0))) 100
       = Some (ex_fd\<lparr>nd_seek_pos := 100\<rparr>)"
    unfolding a by (simp add: vfs_handle_to_fd_def)
  show ?thesis using fd tty over nz a b by simp
qed

section \<open>vfs_write\<close>

lemma vfs_write_expand_grow:
  assumes ino: "inodes h (nd_inode nd) = Some ino"
    and grow: "nd_seek_pos nd + len > i_size ino"
    and fs: "i_fs ino = Some f"
  shows "vfs_write_expand env h nd len =
    Some (case fs_sync (fsinfo env f) of
            None \<Rightarrow> set_inode h (nd_inode nd) (ino\<lparr>i_size := nd_seek_pos nd + len\<rparr>)
          | Some sync \<Rightarrow>
              sync (nd_inode nd) (set_inode h (nd_inode nd) (ino\<lparr>i_size := nd_seek_pos nd + len\<rparr>)))"
  using ino grow fs by (simp add: vfs_write_expand_def Let_def)

lemma vfs_write_expand_keep:
  assumes ino: "inodes h (nd_inode nd) = Some ino"
    and keep: "\<not> nd_seek_pos nd + len > i_size ino"
  shows "vfs_write_expand env h nd len = Some h"
  using ino keep by (simp add: vfs_write_expand_def Let_def)

lemma vfs_write_unfold:
  assumes nd: "vfs_handle_to_fd s h = Some nd"
    and mode: "nd_mode nd \<noteq> VFS_MODE_READ"
    and ex: "vfs_write_expand env (heap s) nd len = Some h2"
    and ino2: "inodes h2 (nd_inode nd) = Some ino2"
    and fs2: "i_fs ino2 = Some f2"
    and wr: "fs_write (fsinfo env f2) (nd_inode nd) (nd_seek_pos nd) len buff h2 = (status, h3)"
    and tn3: "tnodes h3 (nd_tnode nd) = Some tn3"
    and ino3: "inodes h3 (nd_inode nd) = Some ino3"
  shows "vfs_write env s h len buff =
    Some (if status = - 1 then 0 else len,
          s\<lparr>heap := set_tnode h3 (nd_tnode nd)
                      (tn3\<lparr>tn_st := (tn_st tn3)\<lparr>st_size := i_size ino3\<rparr>\<rparr>)\<rparr>)"
  using nd mode ex ino2 fs2 wr tn3 ino3
  by (simp add: vfs_write_def Let_def)

text \<open>
  C3. For an open handle whose mode is not read-only, a write with
  \<open>seek_pos + len > size\<close> sets the size of the inode to \<open>seek_pos + len\<close> (heap \<open>h1\<close>) and
  calls the provider's \<open>sync\<close> when there is one (heap \<open>h2\<close>), before the provider's
  \<open>write\<close> runs on \<open>h2\<close>; the size that the inode has after the provider's \<open>write\<close> is
  copied into the stat record of the tnode, and the call returns \<open>len\<close> when the provider
  succeeded and 0 when it returned \<open>- 1\<close>. With a provider whose \<open>sync\<close> and \<open>write\<close>
  leave the size field alone, the inode and the stat record both end with the size
  \<open>seek_pos + len\<close>.
\<close>

theorem vfs_write_grows:
  assumes nd: "vfs_handle_to_fd s h = Some nd"
    and mode: "nd_mode nd \<noteq> VFS_MODE_READ"
    and ino: "inodes (heap s) (nd_inode nd) = Some ino"
    and grow: "nd_seek_pos nd + len > i_size ino"
    and fs: "i_fs ino = Some f"
    and h1: "h1 = set_inode (heap s) (nd_inode nd) (ino\<lparr>i_size := nd_seek_pos nd + len\<rparr>)"
    and h2: "h2 = (case fs_sync (fsinfo env f) of None \<Rightarrow> h1 | Some sync \<Rightarrow> sync (nd_inode nd) h1)"
    and ino2: "inodes h2 (nd_inode nd) = Some ino2"
    and fs2: "i_fs ino2 = Some f2"
    and wr: "fs_write (fsinfo env f2) (nd_inode nd) (nd_seek_pos nd) len buff h2 = (status, h3)"
    and tn3: "tnodes h3 (nd_tnode nd) = Some tn3"
    and ino3: "inodes h3 (nd_inode nd) = Some ino3"
  shows "map_option i_size (inodes h1 (nd_inode nd)) = Some (nd_seek_pos nd + len)
    \<and> vfs_write_expand env (heap s) nd len = Some h2
    \<and> vfs_write env s h len buff =
        Some (if status = - 1 then 0 else len,
              s\<lparr>heap := set_tnode h3 (nd_tnode nd)
                          (tn3\<lparr>tn_st := (tn_st tn3)\<lparr>st_size := i_size ino3\<rparr>\<rparr>)\<rparr>)
    \<and> map_option i_size (inodes (heap (snd (the (vfs_write env s h len buff)))) (nd_inode nd))
        = Some (i_size ino3)
    \<and> map_option (\<lambda>t. st_size (tn_st t))
          (tnodes (heap (snd (the (vfs_write env s h len buff)))) (nd_tnode nd))
        = Some (i_size ino3)
    \<and> (i_size ino2 = nd_seek_pos nd + len \<and> i_size ino3 = i_size ino2 \<longrightarrow>
          map_option i_size (inodes (heap (snd (the (vfs_write env s h len buff)))) (nd_inode nd))
            = Some (nd_seek_pos nd + len)
          \<and> map_option (\<lambda>t. st_size (tn_st t))
                (tnodes (heap (snd (the (vfs_write env s h len buff)))) (nd_tnode nd))
              = Some (nd_seek_pos nd + len))"
proof -
  have ex: "vfs_write_expand env (heap s) nd len = Some h2"
    unfolding h2 h1 vfs_write_expand_grow[OF ino grow fs] by (simp split: option.splits)
  note w = vfs_write_unfold[OF nd mode ex ino2 fs2 wr tn3 ino3]
  show ?thesis
    unfolding w using ino3 ex by (simp add: h1 set_inode_def set_tnode_def)
qed

text \<open>A write of 121 bytes at the start of the 100-byte file: the size becomes 121.\<close>

theorem vfs_write_grows_witness:
  "vfs_handle_to_fd ex_state 100 = Some ex_fd
   \<and> nd_mode ex_fd \<noteq> VFS_MODE_READ
   \<and> nd_seek_pos ex_fd + 121 > i_size ex_file_inode
   \<and> vfs_write ex_env ex_state 100 121 0 =
       Some (121, ex_state\<lparr>heap := set_tnode ex_grown 1
          (ex_file_tnode\<lparr>tn_st := (tn_st ex_file_tnode)\<lparr>st_size := 121\<rparr>\<rparr>)\<rparr>)"
proof -
  have nd: "vfs_handle_to_fd ex_state 100 = Some ex_fd"
    by (simp add: vfs_handle_to_fd_def ex_state_def)
  have mode: "nd_mode ex_fd \<noteq> VFS_MODE_READ" by (simp add: ex_fd_def)
  have ino: "inodes (heap ex_state) (nd_inode ex_fd) = Some ex_file_inode"
    by (simp add: ex_state_def ex_heap_def ex_fd_def)
  have grow: "nd_seek_pos ex_fd + 121 > i_size ex_file_inode"
    by (simp add: ex_fd_def ex_file_inode_def)
  have fs: "i_fs ex_file_inode = Some 0" by (simp add: ex_file_inode_def)
  have h1: "ex_grown = set_inode (heap ex_state) (nd_inode ex_fd)
              (ex_file_inode\<lparr>i_size := nd_seek_pos ex_fd + 121\<rparr>)"
    by (simp add: ex_grown_def ex_state_def ex_fd_def)
  have h2: "ex_grown = (case fs_sync (fsinfo ex_env 0) of
              None \<Rightarrow> ex_grown | Some sync \<Rightarrow> sync (nd_inode ex_fd) ex_grown)"
    by (simp add: ex_env_def ex_ramfs_def)
  have ino2: "inodes ex_grown (nd_inode ex_fd) = Some (ex_file_inode\<lparr>i_size := 121\<rparr>)"
    by (simp add: ex_grown_def set_inode_def ex_fd_def)
  have fs2: "i_fs (ex_file_inode\<lparr>i_size := 121\<rparr>) = Some 0" by (simp add: ex_file_inode_def)
  have wr: "fs_write (fsinfo ex_env 0) (nd_inode ex_fd) (nd_seek_pos ex_fd) 121 0 ex_grown
              = (0, ex_grown)"
    by (simp add: ex_env_def ex_ramfs_def)
  have tn3: "tnodes ex_grown (nd_tnode ex_fd) = Some ex_file_tnode"
    by (simp add: ex_grown_def set_inode_def ex_heap_def ex_fd_def)
  have "vfs_write ex_env ex_state 100 121 0 =
       Some (121, ex_state\<lparr>heap := set_tnode ex_grown 1
          (ex_file_tnode\<lparr>tn_st := (tn_st ex_file_tnode)\<lparr>st_size := 121\<rparr>\<rparr>)\<rparr>)"
    using vfs_write_grows[OF nd mode ino grow fs h1 h2 ino2 fs2 wr tn3 ino2]
    by (simp add: ex_fd_def)
  then show ?thesis using nd mode grow by simp
qed

text \<open>
  C9. For an open writable handle with \<open>seek_pos + len > size\<close>, when the provider's
  \<open>write\<close> returns \<open>- 1\<close> the call returns 0, and the inode is left as the provider left
  it: \<open>vfs_write\<close> does not restore the old size. With a provider that does not touch the
  size field, the size of the inode and the \<open>st_size\<close> of the tnode are both
  \<open>seek_pos + len\<close>, above the old size.
\<close>

theorem vfs_write_failure_keeps_growth:
  assumes nd: "vfs_handle_to_fd s h = Some nd"
    and mode: "nd_mode nd \<noteq> VFS_MODE_READ"
    and ino: "inodes (heap s) (nd_inode nd) = Some ino"
    and grow: "nd_seek_pos nd + len > i_size ino"
    and fs: "i_fs ino = Some f"
    and h1: "h1 = set_inode (heap s) (nd_inode nd) (ino\<lparr>i_size := nd_seek_pos nd + len\<rparr>)"
    and h2: "h2 = (case fs_sync (fsinfo env f) of None \<Rightarrow> h1 | Some sync \<Rightarrow> sync (nd_inode nd) h1)"
    and ino2: "inodes h2 (nd_inode nd) = Some ino2"
    and fs2: "i_fs ino2 = Some f2"
    and wr: "fs_write (fsinfo env f2) (nd_inode nd) (nd_seek_pos nd) len buff h2 = (- 1, h3)"
    and tn3: "tnodes h3 (nd_tnode nd) = Some tn3"
    and ino3: "inodes h3 (nd_inode nd) = Some ino3"
    and kept: "i_size ino3 = i_size ino2" "i_size ino2 = nd_seek_pos nd + len"
  shows "\<exists>s1. vfs_write env s h len buff = Some (0, s1)
    \<and> inodes (heap s1) (nd_inode nd) = Some ino3
    \<and> i_size ino3 = nd_seek_pos nd + len
    \<and> map_option (\<lambda>t. st_size (tn_st t)) (tnodes (heap s1) (nd_tnode nd))
        = Some (nd_seek_pos nd + len)
    \<and> i_size ino < nd_seek_pos nd + len"
proof -
  have ex: "vfs_write_expand env (heap s) nd len = Some h2"
    unfolding h2 h1 vfs_write_expand_grow[OF ino grow fs] by (simp split: option.splits)
  note w = vfs_write_unfold[OF nd mode ex ino2 fs2 wr tn3 ino3]
  show ?thesis
    unfolding w using ino3 kept grow by (simp add: set_tnode_def)
qed

text \<open>The same write on the provider whose \<open>write\<close> fails: 0 is returned, the size is 121.\<close>

theorem vfs_write_failure_keeps_growth_witness:
  "vfs_handle_to_fd ex_state_fat 100 = Some ex_fd
   \<and> nd_mode ex_fd \<noteq> VFS_MODE_READ
   \<and> nd_seek_pos ex_fd + 121 > (100 :: 64 word)
   \<and> (\<exists>s1. vfs_write ex_env ex_state_fat 100 121 0 = Some (0, s1)
        \<and> map_option i_size (inodes (heap s1) 1) = Some 121
        \<and> map_option (\<lambda>t. st_size (tn_st t)) (tnodes (heap s1) 1) = Some 121)"
proof -
  let ?ino = "ex_file_inode\<lparr>i_fs := Some 1\<rparr>"
  let ?h1 = "set_inode (heap ex_state_fat) 1 (?ino\<lparr>i_size := 121\<rparr>)"
  have nd: "vfs_handle_to_fd ex_state_fat 100 = Some ex_fd"
    by (simp add: vfs_handle_to_fd_def ex_state_fat_def ex_state_def)
  have mode: "nd_mode ex_fd \<noteq> VFS_MODE_READ" by (simp add: ex_fd_def)
  have ino: "inodes (heap ex_state_fat) (nd_inode ex_fd) = Some ?ino"
    by (simp add: ex_state_fat_def set_inode_def ex_fd_def)
  have grow: "nd_seek_pos ex_fd + 121 > i_size ?ino"
    by (simp add: ex_fd_def ex_file_inode_def)
  have fs: "i_fs ?ino = Some 1" by simp
  have h1: "?h1 = set_inode (heap ex_state_fat) (nd_inode ex_fd)
              (?ino\<lparr>i_size := nd_seek_pos ex_fd + 121\<rparr>)"
    by (simp add: ex_fd_def)
  have h2: "?h1 = (case fs_sync (fsinfo ex_env 1) of
              None \<Rightarrow> ?h1 | Some sync \<Rightarrow> sync (nd_inode ex_fd) ?h1)"
    by (simp add: ex_env_def ex_fat32_def)
  have ino2: "inodes ?h1 (nd_inode ex_fd) = Some (?ino\<lparr>i_size := 121\<rparr>)"
    by (simp add: set_inode_def ex_fd_def)
  have fs2: "i_fs (?ino\<lparr>i_size := 121\<rparr>) = Some 1" by simp
  have wr: "fs_write (fsinfo ex_env 1) (nd_inode ex_fd) (nd_seek_pos ex_fd) 121 0 ?h1
              = (- 1, ?h1)"
    by (simp add: ex_env_def ex_fat32_def)
  have tn3: "tnodes ?h1 (nd_tnode ex_fd) = Some ex_file_tnode"
    by (simp add: ex_state_fat_def ex_state_def set_inode_def ex_heap_def ex_fd_def)
  have k1: "i_size (?ino\<lparr>i_size := 121\<rparr>) = i_size (?ino\<lparr>i_size := 121\<rparr>)" by simp
  have k2: "i_size (?ino\<lparr>i_size := 121\<rparr>) = nd_seek_pos ex_fd + 121" by (simp add: ex_fd_def)
  have "\<exists>s1. vfs_write ex_env ex_state_fat 100 121 0 = Some (0, s1)
        \<and> map_option i_size (inodes (heap s1) 1) = Some 121
        \<and> map_option (\<lambda>t. st_size (tn_st t)) (tnodes (heap s1) 1) = Some 121"
    using vfs_write_failure_keeps_growth[OF nd mode ino grow fs h1 h2 ino2 fs2 wr tn3 ino2 k1 k2]
    by (auto simp add: ex_fd_def)
  then show ?thesis using nd mode grow by (simp add: ex_file_inode_def)
qed

section \<open>vfs_unlink\<close>

lemma word_not_gt1_not_0:
  fixes n :: "64 word"
  shows "(\<not> n > 1 \<and> n \<noteq> 0) = (n = 1)"
proof -
  have a: "(\<not> unat n > 1 \<and> unat n \<noteq> 0) = (unat n = 1)" by arith
  have b: "(n = 1) = (unat n = 1)" "(n = 0) = (unat n = 0)"
    by (simp_all add: word_unat_eq_iff)
  show ?thesis
    unfolding b using a by (simp add: word_less_nat_alt)
qed

text \<open>
  C5. For a path that resolves, \<open>vfs_unlink\<close> succeeds if and only if the \<open>st_nlink\<close> of
  the tnode is 1: it returns \<open>- 1\<close> and changes nothing when the count is above 1 or is 0.
  On success it sets \<open>st_nlink\<close> to 0 (heap \<open>h1\<close>) and, when the reference count of the
  inode is 0 and the provider has an \<open>rmnode\<close>, calls \<open>rmnode\<close> on the tnode. (With a
  reference count of 0 the code reads the provider of the inode: an inode without one is
  a null dereference.)
\<close>

theorem vfs_unlink_nlink:
  assumes req: "vfs_path_to_node env (heap s) path = Some req"
    and tn: "tnodes (heap s) req = Some tn"
    and ino: "inodes (heap s) (tn_inode tn) = Some ino"
    and h1: "h1 = set_tnode (heap s) req (tn\<lparr>tn_st := (tn_st tn)\<lparr>st_nlink := 0\<rparr>\<rparr>)"
  shows "(st_nlink (tn_st tn) > 1 \<or> st_nlink (tn_st tn) = 0) = (st_nlink (tn_st tn) \<noteq> 1)
    \<and> (st_nlink (tn_st tn) \<noteq> 1 \<longrightarrow> vfs_unlink env s path = Some (- 1, s))
    \<and> (st_nlink (tn_st tn) = 1 \<longrightarrow>
         map_option (\<lambda>t. st_nlink (tn_st t)) (tnodes h1 req) = Some 0
         \<and> (i_refcount ino \<noteq> 0 \<longrightarrow> vfs_unlink env s path = Some (0, s\<lparr>heap := h1\<rparr>))
         \<and> (i_refcount ino = 0 \<longrightarrow>
              vfs_unlink env s path =
                (case i_fs ino of
                   None \<Rightarrow> None
                 | Some f \<Rightarrow>
                     (case fs_rmnode (fsinfo env f) of
                        None \<Rightarrow> Some (0, s\<lparr>heap := h1\<rparr>)
                      | Some rmnode \<Rightarrow> Some (0, s\<lparr>heap := rmnode req h1\<rparr>)))))"
proof -
  have c: "(\<not> st_nlink (tn_st tn) > 1 \<and> st_nlink (tn_st tn) \<noteq> 0) = (st_nlink (tn_st tn) = 1)"
    by (rule word_not_gt1_not_0)
  have i1: "inodes h1 (tn_inode tn) = Some ino" using ino by (simp add: h1 set_tnode_def)
  show ?thesis
  proof (cases "st_nlink (tn_st tn) = 1")
    case True
    then have ok: "\<not> st_nlink (tn_st tn) > 1" "st_nlink (tn_st tn) \<noteq> 0" using c by auto
    have z: "map_option (\<lambda>t. st_nlink (tn_st t)) (tnodes h1 req) = Some 0"
      by (simp add: h1 set_tnode_def)
    have u: "vfs_unlink env s path =
        (if i_refcount ino = 0 then
           (case i_fs ino of
              None \<Rightarrow> None
            | Some f \<Rightarrow>
                (case fs_rmnode (fsinfo env f) of
                   None \<Rightarrow> Some (0, s\<lparr>heap := h1\<rparr>)
                 | Some rmnode \<Rightarrow> Some (0, s\<lparr>heap := rmnode req h1\<rparr>)))
         else Some (0, s\<lparr>heap := h1\<rparr>))"
      using req tn i1 ok
      by (simp add: vfs_unlink_def Let_def h1[symmetric] split: option.splits)
    show ?thesis using True c z u by simp
  next
    case False
    then have "st_nlink (tn_st tn) > 1 \<or> st_nlink (tn_st tn) = 0" using c by blast
    then show ?thesis
      using req tn False by (auto simp add: vfs_unlink_def)
  qed
qed

text \<open>
  \<open>/disk\<close> has one link and no open descriptor, and its provider has an \<open>rmnode\<close>: the
  unlink succeeds and the provider removes the tnode.
\<close>

theorem vfs_unlink_nlink_witness:
  "vfs_path_to_node ex_env (heap ex_state) ''/disk'' = Some 3
   \<and> map_option (\<lambda>t. st_nlink (tn_st t)) (tnodes (heap ex_state) 3) = Some 1
   \<and> vfs_unlink ex_env ex_state ''/disk''
       = Some (0, ex_state\<lparr>heap := ex_heap\<lparr>tnodes := (tnodes ex_heap)(3 := None)\<rparr>\<rparr>)"
proof -
  let ?tn = "ex_folder_tnode ''disk'' 3 4 (Some 0)"
  let ?h1 = "set_tnode (heap ex_state) 3 (?tn\<lparr>tn_st := (tn_st ?tn)\<lparr>st_nlink := 0\<rparr>\<rparr>)"
  have req: "vfs_path_to_node ex_env (heap ex_state) ''/disk'' = Some 3"
    by (simp add: ex_env_def ex_path_to_node_def)
  have tn: "tnodes (heap ex_state) 3 = Some ?tn"
    by (simp add: ex_state_def ex_heap_def)
  have ino: "inodes (heap ex_state) (tn_inode ?tn) = Some (ex_folder (Some 1) [])"
    by (simp add: ex_state_def ex_heap_def ex_folder_tnode_def)
  have h1: "?h1 = ?h1" by simp
  have one: "st_nlink (tn_st ?tn) = 1" by (simp add: ex_folder_tnode_def ex_stat_def)
  have "vfs_unlink ex_env ex_state ''/disk''
       = Some (0, ex_state\<lparr>heap := ex_heap\<lparr>tnodes := (tnodes ex_heap)(3 := None)\<rparr>\<rparr>)"
    using vfs_unlink_nlink[OF req tn ino h1] one
    by (simp add: ex_folder_def ex_env_def ex_fat32_def set_tnode_def ex_state_def)
  then show ?thesis using req tn one by simp
qed

section \<open>vfs_mount\<close>

lemma resolved_node:
  assumes "tnodes_valid h" "resolver_valid env h" "vfs_path_to_node env h p = Some t"
  shows "\<exists>tn ino. tnodes h t = Some tn \<and> inodes h (tn_inode tn) = Some ino"
  using assms unfolding tnodes_valid_def resolver_valid_def by fastforce

lemma vfs_mount_at_failure:
  assumes "vfs_mount_at env s f dev path = Some (r, s1)" "r \<noteq> 0"
  shows "r = - 1 \<and> s1 = s"
  using assms
  by (auto simp add: vfs_mount_at_def Let_def split: option.splits if_splits prod.splits
      bind_splits)

lemma vfs_mount_at_not_empty_folder:
  assumes "vfs_path_to_node env (heap s) path = Some at"
    "tnodes (heap s) at = Some at_tn"
    "inodes (heap s) (tn_inode at_tn) = Some at_ino"
    "i_type at_ino \<noteq> VFS_NODE_FOLDER \<or> i_child at_ino \<noteq> []"
  shows "vfs_mount_at env s f dev path = Some (- 1, s)"
  using assms by (auto simp add: vfs_mount_at_def)

lemma vfs_mount_at_unresolved:
  assumes "vfs_path_to_node env (heap s) path = None"
  shows "vfs_mount_at env s f dev path = Some (- 1, s)"
  using assms by (simp add: vfs_mount_at_def)

lemma vfs_mount_nonzero_unchanged:
  assumes "vfs_mount env s device path fsname = Some (r, s1)" "r \<noteq> 0"
  shows "r = - 1 \<and> s1 = s"
  using assms vfs_mount_at_failure[of env s _ _ path r s1]
  by (auto simp add: vfs_mount_def split: option.splits if_splits bind_splits)

lemma vfs_mount_cases:
  assumes wf: "tnodes_valid (heap s)" "resolver_valid env (heap s)"
    and dev: "device = None \<longrightarrow> (\<forall>f. vfs_get_fs env s fsname = Some f \<longrightarrow> istemp (fsinfo env f))"
  shows "vfs_mount env s device path fsname = Some (- 1, s)
    \<or> (\<exists>f dv. vfs_mount env s device path fsname = vfs_mount_at env s f dv path)"
proof (cases "vfs_get_fs env s fsname")
  case None
  then show ?thesis by (simp add: vfs_mount_def)
next
  case (Some f)
  note f = this
  show ?thesis
  proof (cases "istemp (fsinfo env f)")
    case True
    then have "vfs_mount env s device path fsname = vfs_mount_at env s f None path"
      using f by (simp add: vfs_mount_def)
    then show ?thesis by blast
  next
    case False
    then obtain d where d: "device = Some d" using dev f by (cases device) auto
    show ?thesis
    proof (cases "vfs_path_to_node env (heap s) d")
      case None
      then show ?thesis using f False d by (simp add: vfs_mount_def)
    next
      case (Some dv)
      from resolved_node[OF wf Some] obtain dt di where
        n: "tnodes (heap s) dv = Some dt" "inodes (heap s) (tn_inode dt) = Some di" by blast
      show ?thesis
      proof (cases "i_type di = VFS_NODE_BLOCK_DEVICE")
        case True
        then have "vfs_mount env s device path fsname = vfs_mount_at env s f (Some dv) path"
          using f False d Some n by (simp add: vfs_mount_def)
        then show ?thesis by blast
      next
        case False
        then show ?thesis using f \<open>\<not> istemp (fsinfo env f)\<close> d Some n
          by (simp add: vfs_mount_def)
      qed
    qed
  qed
qed

text \<open>
  C4. \<open>vfs_mount\<close> returns \<open>- 1\<close> when the inode at \<open>path\<close> is not a folder or has
  children, and every failure leaves the state as it was: whenever the call returns a
  value other than 0, that value is \<open>- 1\<close> and the state is unchanged, so that no inode is
  freed or replaced and no mountpoint is set. The remaining conjuncts are the other
  failures: an unknown provider, a path or a device that does not resolve, a device that
  is not a block device.
\<close>

theorem vfs_mount_failure:
  assumes wf: "tnodes_valid (heap s)" "resolver_valid env (heap s)"
    and dev: "device = None \<longrightarrow> (\<forall>f. vfs_get_fs env s fsname = Some f \<longrightarrow> istemp (fsinfo env f))"
  shows "(\<forall>at at_tn at_ino.
            vfs_path_to_node env (heap s) path = Some at
            \<and> tnodes (heap s) at = Some at_tn
            \<and> inodes (heap s) (tn_inode at_tn) = Some at_ino
            \<and> (i_type at_ino \<noteq> VFS_NODE_FOLDER \<or> i_child at_ino \<noteq> [])
            \<longrightarrow> vfs_mount env s device path fsname = Some (- 1, s))
    \<and> (\<forall>r s1. vfs_mount env s device path fsname = Some (r, s1) \<and> r \<noteq> 0 \<longrightarrow> r = - 1 \<and> s1 = s)
    \<and> (vfs_get_fs env s fsname = None \<longrightarrow> vfs_mount env s device path fsname = Some (- 1, s))
    \<and> (vfs_path_to_node env (heap s) path = None \<longrightarrow>
          vfs_mount env s device path fsname = Some (- 1, s))
    \<and> (\<forall>f d. vfs_get_fs env s fsname = Some f \<and> \<not> istemp (fsinfo env f) \<and> device = Some d
          \<and> vfs_path_to_node env (heap s) d = None
          \<longrightarrow> vfs_mount env s device path fsname = Some (- 1, s))
    \<and> (\<forall>f d dv dt di. vfs_get_fs env s fsname = Some f \<and> \<not> istemp (fsinfo env f)
          \<and> device = Some d \<and> vfs_path_to_node env (heap s) d = Some dv
          \<and> tnodes (heap s) dv = Some dt \<and> inodes (heap s) (tn_inode dt) = Some di
          \<and> i_type di \<noteq> VFS_NODE_BLOCK_DEVICE
          \<longrightarrow> vfs_mount env s device path fsname = Some (- 1, s))"
proof (intro conjI allI impI)
  fix at at_tn at_ino
  assume a: "vfs_path_to_node env (heap s) path = Some at
            \<and> tnodes (heap s) at = Some at_tn
            \<and> inodes (heap s) (tn_inode at_tn) = Some at_ino
            \<and> (i_type at_ino \<noteq> VFS_NODE_FOLDER \<or> i_child at_ino \<noteq> [])"
  then have "\<And>f dv. vfs_mount_at env s f dv path = Some (- 1, s)"
    by (intro vfs_mount_at_not_empty_folder) auto
  then show "vfs_mount env s device path fsname = Some (- 1, s)"
    using vfs_mount_cases[OF wf dev, of path] by auto
next
  fix r s1
  assume "vfs_mount env s device path fsname = Some (r, s1) \<and> r \<noteq> 0"
  then show "r = - 1" "s1 = s"
    using vfs_mount_nonzero_unchanged[of env s device path fsname r s1] by auto
next
  assume "vfs_get_fs env s fsname = None"
  then show "vfs_mount env s device path fsname = Some (- 1, s)"
    by (simp add: vfs_mount_def)
next
  assume "vfs_path_to_node env (heap s) path = None"
  then have "\<And>f dv. vfs_mount_at env s f dv path = Some (- 1, s)"
    by (rule vfs_mount_at_unresolved)
  then show "vfs_mount env s device path fsname = Some (- 1, s)"
    using vfs_mount_cases[OF wf dev, of path] by auto
next
  fix f d
  assume "vfs_get_fs env s fsname = Some f \<and> \<not> istemp (fsinfo env f) \<and> device = Some d
          \<and> vfs_path_to_node env (heap s) d = None"
  then show "vfs_mount env s device path fsname = Some (- 1, s)"
    by (simp add: vfs_mount_def)
next
  fix f d dv dt di
  assume "vfs_get_fs env s fsname = Some f \<and> \<not> istemp (fsinfo env f)
          \<and> device = Some d \<and> vfs_path_to_node env (heap s) d = Some dv
          \<and> tnodes (heap s) dv = Some dt \<and> inodes (heap s) (tn_inode dt) = Some di
          \<and> i_type di \<noteq> VFS_NODE_BLOCK_DEVICE"
  then show "vfs_mount env s device path fsname = Some (- 1, s)"
    by (simp add: vfs_mount_def)
qed

lemma ex_get_fs_ramfs: "vfs_get_fs ex_env ex_state ''ramfs'' = Some 0"
  by (simp add: vfs_get_fs_def ex_state_def ex_env_def ex_ramfs_def ex_fat32_def
      eval_nat_numeral NUL_def)

lemma ex_tnodes_valid: "tnodes_valid (heap ex_state)"
  by (auto simp add: tnodes_valid_def ex_state_def ex_heap_def ex_file_tnode_def
      ex_folder_tnode_def split: if_splits)

lemma ex_resolver_valid: "resolver_valid ex_env (heap ex_state)"
  by (auto simp add: resolver_valid_def ex_state_def ex_heap_def ex_env_def
      ex_path_to_node_def split: if_splits)

theorem vfs_mount_failure_witness:
  "tnodes_valid (heap ex_state) \<and> resolver_valid ex_env (heap ex_state)
   \<and> vfs_get_fs ex_env ex_state ''ramfs'' = Some 0 \<and> istemp (fsinfo ex_env 0)
   \<and> vfs_path_to_node ex_env (heap ex_state) ''/dev'' = Some 2
   \<and> map_option i_child (inodes (heap ex_state) 2) = Some [4]
   \<and> vfs_mount ex_env ex_state None ''/dev'' ''ramfs'' = Some (- 1, ex_state)"
proof -
  have dev: "(None :: string option) = None \<longrightarrow>
      (\<forall>f. vfs_get_fs ex_env ex_state ''ramfs'' = Some f \<longrightarrow> istemp (fsinfo ex_env f))"
    by (simp add: ex_get_fs_ramfs) (simp add: ex_env_def ex_ramfs_def)
  have at: "vfs_path_to_node ex_env (heap ex_state) ''/dev'' = Some 2"
    by (simp add: ex_env_def ex_path_to_node_def)
  have tn: "tnodes (heap ex_state) 2 = Some (ex_folder_tnode ''dev'' 2 3 (Some 0))"
    by (simp add: ex_state_def ex_heap_def)
  have ino: "inodes (heap ex_state) (tn_inode (ex_folder_tnode ''dev'' 2 3 (Some 0)))
      = Some (ex_folder (Some 0) [4])"
    by (simp add: ex_state_def ex_heap_def ex_folder_tnode_def)
  have bad: "i_type (ex_folder (Some 0) [4]) \<noteq> VFS_NODE_FOLDER \<or> i_child (ex_folder (Some 0) [4]) \<noteq> []"
    by (simp add: ex_folder_def)
  have "vfs_mount ex_env ex_state None ''/dev'' ''ramfs'' = Some (- 1, ex_state)"
    using vfs_mount_failure[OF ex_tnodes_valid ex_resolver_valid dev, of "''/dev''"] at tn ino bad
    by blast
  moreover have "istemp (fsinfo ex_env 0)" by (simp add: ex_env_def ex_ramfs_def)
  moreover have "map_option i_child (inodes (heap ex_state) 2) = Some [4]"
    by (simp add: ex_state_def ex_heap_def ex_folder_def)
  ultimately show ?thesis
    using ex_tnodes_valid ex_resolver_valid ex_get_fs_ramfs at by simp
qed

section \<open>vfs_get_parent_dir\<close>

lemma slash_notin_basename: "CHR ''/'' \<notin> set (basename r)"
  by (auto simp add: basename_def dest: set_takeWhileD)

text \<open>
  C8, as amended. Let \<open>r\<close> be the path without its trailing slashes. When \<open>r\<close> has
  at most one character (the code's test for a path without a parent directory: the empty
  path, the root, a single character), \<open>parent\<close> is set to the empty string and the
  routine returns \<open>- 1\<close>. When \<open>r\<close> is longer and holds a slash, the routine returns 0,
  \<open>parent\<close> is what stands in \<open>r\<close> before its last slash, or \<open>/\<close> when nothing stands
  there, and \<open>currdir\<close>, when it is not \<open>NULL\<close>, is what stands after that slash.
\<close>

theorem vfs_get_parent_dir_split:
  "(length (strip_trailing (c_str p)) \<le> 1 \<longrightarrow>
      vfs_get_parent_dir (Some p) (Some old) cd = (- 1, Some [], cd))
   \<and> (1 < length (strip_trailing (c_str p)) \<and> CHR ''/'' \<in> set (strip_trailing (c_str p)) \<longrightarrow>
        (let r = strip_trailing (c_str p) in
           r = dirname r @ CHR ''/'' # basename r
           \<and> CHR ''/'' \<notin> set (basename r)
           \<and> vfs_get_parent_dir (Some p) (Some old) cd =
               (0, Some (if dirname r = [] then ''/'' else dirname r),
                if cd = None then None else Some (basename r))))"
  using dirname_basename[of "strip_trailing (c_str p)"]
  by (auto simp add: vfs_get_parent_dir_char Let_def slash_notin_basename)

theorem vfs_get_parent_dir_split_witness:
  "1 < length (strip_trailing (c_str ''/a/b//''))
   \<and> CHR ''/'' \<in> set (strip_trailing (c_str ''/a/b//''))
   \<and> strip_trailing (c_str ''/a/b//'') = ''/a/b''
   \<and> vfs_get_parent_dir (Some ''/a/b//'') (Some []) (Some []) = (0, Some ''/a'', Some ''b'')
   \<and> length (strip_trailing (c_str ''//'')) \<le> 1
   \<and> vfs_get_parent_dir (Some ''//'') (Some []) (Some []) = (- 1, Some [], Some [])"
proof -
  have r: "strip_trailing (c_str ''/a/b//'') = ''/a/b''"
    by (simp add: strip_trailing_def c_str_def NUL_def)
  have r2: "strip_trailing (c_str ''//'') = []"
    by (simp add: strip_trailing_def c_str_def NUL_def)
  have d: "dirname ''/a/b'' = ''/a''" "basename ''/a/b'' = ''b''"
    by (simp_all add: dirname_def basename_def)
  have a: "vfs_get_parent_dir (Some ''/a/b//'') (Some []) (Some []) = (0, Some ''/a'', Some ''b'')"
    using vfs_get_parent_dir_split[of "''/a/b//''" "[]" "Some []"]
    by (simp add: r d)
  have b: "vfs_get_parent_dir (Some ''//'') (Some []) (Some []) = (- 1, Some [], Some [])"
    using vfs_get_parent_dir_split[of "''//''" "[]" "Some []"]
    by (simp add: r2)
  show ?thesis using a b by (simp add: r r2)
qed

text \<open>
  C8 as stated fails for the root: for the path \<open>/\<close> the routine returns \<open>- 1\<close> and
  leaves the empty string in \<open>parent\<close>, not \<open>/\<close>.
\<close>

theorem vfs_get_parent_dir_root_counterexample:
  "vfs_get_parent_dir (Some ''/'') (Some []) None = (- 1, Some [], None)
   \<and> fst (snd (vfs_get_parent_dir (Some ''/'') (Some []) None)) \<noteq> Some ''/''"
  by (simp add: vfs_get_parent_dir_def strcpy_def c_str_def strlen_def NUL_def
      strip_slashes.simps)

section \<open>Handles\<close>

lemma vfs_seek_counter:
  "vfs_seek s h p w = Some (r, s1) \<Longrightarrow> vfs_next_handle s1 = vfs_next_handle s"
  by (auto simp add: vfs_seek_def set_fd_def Let_def split: option.splits if_splits bind_splits)

lemma vfs_read_counter:
  "vfs_read env s h len buff = Some (r, s1) \<Longrightarrow> vfs_next_handle s1 = vfs_next_handle s"
  by (auto simp add: vfs_read_def set_fd_def Let_def
      split: option.splits if_splits bind_splits prod.splits)

lemma vfs_write_counter:
  "vfs_write env s h len buff = Some (r, s1) \<Longrightarrow> vfs_next_handle s1 = vfs_next_handle s"
  by (auto simp add: vfs_write_def Let_def
      split: option.splits if_splits bind_splits prod.splits)

lemma vfs_unlink_counter:
  "vfs_unlink env s path = Some (r, s1) \<Longrightarrow> vfs_next_handle s1 = vfs_next_handle s"
  by (auto simp add: vfs_unlink_def Let_def
      split: option.splits if_splits bind_splits prod.splits)

lemma vfs_mount_at_counter:
  "vfs_mount_at env s f dv path = Some (r, s1) \<Longrightarrow> vfs_next_handle s1 = vfs_next_handle s"
  by (auto simp add: vfs_mount_at_def Let_def
      split: option.splits if_splits bind_splits prod.splits)

lemma vfs_mount_counter:
  "vfs_mount env s device path fsname = Some (r, s1) \<Longrightarrow> vfs_next_handle s1 = vfs_next_handle s"
  by (auto simp add: vfs_mount_def Let_def dest: vfs_mount_at_counter
      split: option.splits if_splits bind_splits prod.splits)

lemma vfs_close_counter:
  "vfs_close env s h = Some (r, s1) \<Longrightarrow> vfs_next_handle s1 = vfs_next_handle s"
  by (auto simp add: vfs_close_def vfs_close_release_def ht_delete_def Let_def
      split: option.splits if_splits bind_splits prod.splits)

lemma vfs_open_counter:
  assumes "vfs_open env s path mode = Some (r, s1)"
  shows "(r = VFS_INVALID_HANDLE env \<and> vfs_next_handle s1 = vfs_next_handle s)
       \<or> (r = vfs_next_handle s \<and> vfs_next_handle s1 = vfs_next_handle s + 1)"
  using assms
  by (auto simp add: vfs_open_def vfs_open_desc_def ht_insert_def Let_def
      split: option.splits if_splits bind_splits prod.splits)

lemma vfs_do_counter:
  assumes "vfs_do env s c = Some (r, s1)"
  shows "(vfs_next_handle s1 = vfs_next_handle s
          \<and> opened_handles env ((c, r) # rs) = opened_handles env rs)
       \<or> (vfs_next_handle s1 = vfs_next_handle s + 1
          \<and> opened_handles env ((c, r) # rs) = vfs_next_handle s # opened_handles env rs)
       \<or> (vfs_next_handle s1 = vfs_next_handle s + 1
          \<and> opened_handles env ((c, r) # rs) = opened_handles env rs)"
proof (cases c)
  case (Call_open path mode)
  then show ?thesis using assms vfs_open_counter[of env s path mode r s1] by auto
qed (use assms in \<open>auto dest: vfs_seek_counter vfs_read_counter vfs_write_counter
       vfs_unlink_counter vfs_mount_counter vfs_close_counter\<close>)

lemma unat_succ_nowrap:
  fixes x :: "64 word"
  assumes "unat x + 1 < 2 ^ 64"
  shows "unat (x + 1) = unat x + 1" "x < x + 1"
proof -
  show u: "unat (x + 1) = unat x + 1"
    using assms by (simp add: unat_word_ariths)
  show "x < x + 1" unfolding word_less_nat_alt u by simp
qed

lemma vfs_run_handles:
  assumes "vfs_run env s cs = Some (tr, s1)"
    and "unat (vfs_next_handle s) + length cs < 2 ^ 64"
  shows "sorted_wrt (<) (opened_handles env tr)
    \<and> (\<forall>h \<in> set (opened_handles env tr). vfs_next_handle s \<le> h \<and> h < vfs_next_handle s1)
    \<and> vfs_next_handle s \<le> vfs_next_handle s1
    \<and> unat (vfs_next_handle s1) \<le> unat (vfs_next_handle s) + length cs"
  using assms
proof (induction cs arbitrary: s tr)
  case Nil
  then show ?case by simp
next
  case (Cons c cs)
  from Cons.prems(1) obtain r s' rs where
    c: "vfs_do env s c = Some (r, s')" and
    rest: "vfs_run env s' cs = Some (rs, s1)" and
    tr: "tr = (c, r) # rs"
    by (auto split: bind_splits)
  let ?n = "vfs_next_handle s"
  have nw: "unat ?n + 1 < 2 ^ 64" using Cons.prems(2) by simp
  note su = unat_succ_nowrap[OF nw]
  from vfs_do_counter[OF c, of rs]
  have step: "unat (vfs_next_handle s') \<le> unat ?n + 1" "?n \<le> vfs_next_handle s'"
    using su by (auto simp add: word_le_nat_alt)
  then have nw': "unat (vfs_next_handle s') + length cs < 2 ^ 64" using Cons.prems(2) by simp
  note IH = Cons.IH[OF rest nw']
  from IH have mono: "?n \<le> vfs_next_handle s1" using step(2) by auto
  from IH have bound: "unat (vfs_next_handle s1) \<le> unat ?n + length (c # cs)"
    using step(1) by simp
  from IH have later: "\<forall>h \<in> set (opened_handles env rs). ?n \<le> h \<and> h < vfs_next_handle s1"
    using step(2) by auto
  show ?case
    using vfs_do_counter[OF c, of rs]
  proof (elim disjE conjE)
    assume "opened_handles env ((c, r) # rs) = opened_handles env rs"
    then show ?thesis using IH mono bound later tr by simp
  next
    assume n: "vfs_next_handle s' = ?n + 1"
      and o: "opened_handles env ((c, r) # rs) = ?n # opened_handles env rs"
    have "\<forall>h \<in> set (opened_handles env rs). ?n < h"
      using IH n su(2) by auto
    moreover have "?n < vfs_next_handle s1" using IH n su(2) by auto
    ultimately show ?thesis using IH mono bound later tr o by simp
  next
    assume "opened_handles env ((c, r) # rs) = opened_handles env rs"
    then show ?thesis using IH mono bound later tr by simp
  qed
qed

lemma uint_small:
  fixes h :: "64 word"
  assumes "unat h < 2 ^ 63"
  shows "uint h < 2 ^ 63"
proof -
  have "int (unat h) < int (2 ^ 63)" using assms by (simp only: of_nat_less_iff)
  then show ?thesis by simp
qed

lemma signed_order_small:
  fixes a b :: "64 word"
  assumes a: "unat a < 2 ^ 63" and b: "unat b < 2 ^ 63"
  shows "(sint a < sint b) = (a < b)" "(sint a \<le> sint b) = (a \<le> b)"
proof -
  have sa: "sint a = uint a" using uint_small[OF a] by (rule sint_eq_uint_small)
  have sb: "sint b = uint b" using uint_small[OF b] by (rule sint_eq_uint_small)
  show "(sint a < sint b) = (a < b)" unfolding sa sb word_less_def ..
  show "(sint a \<le> sint b) = (a \<le> b)" unfolding sa sb word_le_def ..
qed

lemma handles_signed:
  fixes hs :: "64 word list"
  assumes srt: "sorted_wrt (<) hs"
    and bnd: "\<forall>h \<in> set hs. m \<le> h \<and> unat h < 2 ^ 63"
  shows "sorted_wrt (\<lambda>a b. sint a < sint b) hs \<and> (\<forall>h \<in> set hs. sint m \<le> sint h)"
proof -
  have "\<And>x y. x \<in> set hs \<Longrightarrow> y \<in> set hs \<Longrightarrow> x < y \<Longrightarrow> sint x < sint y"
    using bnd by (simp add: signed_order_small)
  then have "sorted_wrt (\<lambda>a b. sint a < sint b) hs"
    by (rule sorted_wrt_mono_rel[OF _ srt])
  moreover have "\<forall>h \<in> set hs. sint m \<le> sint h"
  proof
    fix h assume h: "h \<in> set hs"
    then have mh: "m \<le> h" and hb: "unat h < 2 ^ 63" using bnd by auto
    from mh have "unat m \<le> unat h" by (simp add: word_le_nat_alt)
    then have "unat m < 2 ^ 63" using hb by linarith
    then show "sint m \<le> sint h" using mh hb by (simp add: signed_order_small)
  qed
  ultimately show ?thesis by simp
qed

lemma vfs_do_counter_step:
  assumes "vfs_do env s c = Some (r, s1)"
  shows "vfs_next_handle s1 = vfs_next_handle s \<or> vfs_next_handle s1 = vfs_next_handle s + 1"
  using vfs_do_counter[OF assms, of "[]"] by auto

text \<open>
  C7. In every run of calls that starts with the counter at or above \<open>VFS_MIN_HANDLE\<close>
  (it starts at \<open>VFS_MIN_HANDLE\<close>) and that is too short for the 64-bit counter to wrap
  around, the handles returned by the successful opens are strictly increasing, pairwise
  distinct and at least \<open>VFS_MIN_HANDLE\<close>; the counter never decreases, and a call leaves
  it as it is or adds one to it. The handles are compared as unsigned numbers, as the
  counter is; as long as the counter stays below \<open>2^63\<close> the same holds for them read as
  signed numbers.
\<close>

theorem vfs_open_handles_increase:
  assumes run: "vfs_run env s cs = Some (tr, s1)"
    and init: "VFS_MIN_HANDLE env \<le> vfs_next_handle s"
    and nowrap: "unat (vfs_next_handle s) + length cs < 2 ^ 64"
  shows "sorted_wrt (<) (opened_handles env tr)
    \<and> distinct (opened_handles env tr)
    \<and> (\<forall>h \<in> set (opened_handles env tr). VFS_MIN_HANDLE env \<le> h)
    \<and> vfs_next_handle s \<le> vfs_next_handle s1
    \<and> (\<forall>s2 c r s3. vfs_do env s2 c = Some (r, s3) \<longrightarrow>
          vfs_next_handle s3 = vfs_next_handle s2 \<or> vfs_next_handle s3 = vfs_next_handle s2 + 1)
    \<and> (unat (vfs_next_handle s) + length cs < 2 ^ 63 \<longrightarrow>
          sorted_wrt (\<lambda>a b. sint a < sint b) (opened_handles env tr)
          \<and> (\<forall>h \<in> set (opened_handles env tr). sint (VFS_MIN_HANDLE env) \<le> sint h))"
proof -
  note h = vfs_run_handles[OF run nowrap]
  have srt: "sorted_wrt (<) (opened_handles env tr)" using h by simp
  have "distinct (opened_handles env tr)"
    using h by (simp add: strict_sorted_iff)
  moreover have lo: "\<forall>h \<in> set (opened_handles env tr). VFS_MIN_HANDLE env \<le> h"
    using h init by auto
  moreover have "unat (vfs_next_handle s) + length cs < 2 ^ 63 \<longrightarrow>
          sorted_wrt (\<lambda>a b. sint a < sint b) (opened_handles env tr)
          \<and> (\<forall>h \<in> set (opened_handles env tr). sint (VFS_MIN_HANDLE env) \<le> sint h)"
  proof
    assume small: "unat (vfs_next_handle s) + length cs < 2 ^ 63"
    have "\<forall>h \<in> set (opened_handles env tr). unat h < 2 ^ 63"
    proof
      fix x assume "x \<in> set (opened_handles env tr)"
      then have "x < vfs_next_handle s1" using h by blast
      then have "unat x < unat (vfs_next_handle s1)" by (simp add: word_less_nat_alt)
      moreover have "unat (vfs_next_handle s1) \<le> unat (vfs_next_handle s) + length cs"
        using h by blast
      ultimately show "unat x < 2 ^ 63" using small by linarith
    qed
    then have "\<forall>h \<in> set (opened_handles env tr). VFS_MIN_HANDLE env \<le> h \<and> unat h < 2 ^ 63"
      using lo by blast
    then show "sorted_wrt (\<lambda>a b. sint a < sint b) (opened_handles env tr)
          \<and> (\<forall>h \<in> set (opened_handles env tr). sint (VFS_MIN_HANDLE env) \<le> sint h)"
      by (rule handles_signed[OF srt])
  qed
  ultimately show ?thesis using h vfs_do_counter_step by blast
qed

lemma ex_parent_nothing: "parent_of ''/nothing'' = ''/''"
  by (simp add: parent_of_char strip_trailing_def c_str_def NUL_def dirname_def Let_def)

lemma ex_env_simps:
  "vfs_path_to_node ex_env = ex_path_to_node"
  "fsinfo ex_env 0 = ex_ramfs"
  "VFS_INVALID_HANDLE ex_env = - 1"
  "VFS_MIN_HANDLE ex_env = 100"
  by (simp_all add: ex_env_def)

lemma ex_walk: "open_walk ex_env h ''/nothing'' = Some 0"
  by (subst open_walk.simps) (simp add: ex_parent_nothing ex_env_simps ex_path_to_node_def NUL_def)

lemma ex_run:
  "\<exists>tr s1. vfs_run ex_env ex_state ex_calls = Some (tr, s1)
     \<and> opened_handles ex_env tr = [101, 102] \<and> vfs_next_handle s1 = 103"
  by (simp add: ex_calls_def vfs_open_def vfs_open_find_def vfs_open_desc_def vfs_seek_def
      vfs_handle_to_fd_def set_fd_def SEEK_SET_def ex_walk ex_env_simps
      ex_open_def ex_ramfs_def ex_path_to_node_def ex_stat_def
      ex_folder_def ex_file_inode_def ex_file_tnode_def ex_folder_tnode_def ex_heap_def ex_fd_def
      ex_state_def c_str_def NUL_def Let_def set_inode_def set_tnode_def ht_insert_def)

theorem vfs_open_handles_increase_witness:
  "VFS_MIN_HANDLE ex_env \<le> vfs_next_handle ex_state
   \<and> unat (vfs_next_handle ex_state) + length ex_calls < 2 ^ 64
   \<and> (\<exists>tr s1. vfs_run ex_env ex_state ex_calls = Some (tr, s1)
         \<and> opened_handles ex_env tr = [101, 102]
         \<and> sorted_wrt (<) (opened_handles ex_env tr)
         \<and> distinct (opened_handles ex_env tr)
         \<and> vfs_next_handle ex_state \<le> vfs_next_handle s1)"
proof -
  have init: "VFS_MIN_HANDLE ex_env \<le> vfs_next_handle ex_state"
    by (simp add: ex_env_simps ex_state_def)
  have nowrap: "unat (vfs_next_handle ex_state) + length ex_calls < 2 ^ 64"
    by (simp add: ex_state_def ex_calls_def)
  from ex_run obtain tr s1 where
    run: "vfs_run ex_env ex_state ex_calls = Some (tr, s1)" and
    hs: "opened_handles ex_env tr = [101, 102]" by blast
  from vfs_open_handles_increase[OF run init nowrap]
  have "sorted_wrt (<) (opened_handles ex_env tr)" "distinct (opened_handles ex_env tr)"
    "vfs_next_handle ex_state \<le> vfs_next_handle s1" by blast+
  then show ?thesis using init nowrap run hs by blast
qed

section \<open>Reference counts of open and close\<close>














end
